theory Spec2Isabelle
  imports Main "HOL-Library.AList" "HOL-Library.Char_ord" "HOL-Library.List_Lexorder"
begin

section \<open>JavaScript values of a workflow instance\<close>

text \<open>
  A workflow instance is a JSON document (\<^verbatim>\<open>validateWorkflow\<close> clones it through
  \<^verbatim>\<open>JSON.parse(JSON.stringify(workflow))\<close>), and the engine reads and writes it as a
  dynamic object. The model keeps that shape: a value is a \<open>json\<close>, an object is an
  association list in insertion order (\<^verbatim>\<open>Object.keys\<close> order, for keys that are not
  array indices), and a property that is absent reads as \<open>None\<close> (JavaScript's
  \<^verbatim>\<open>undefined\<close>). Numbers are the integers the engine computes with (time stamps);
  \<open>JNaN\<close> is the result of arithmetic on a missing operand.

  The data model of the engine has objects where it expects a task or a task mapping;
  a property write on a value that is not an object is a no-op in the model. An array
  in the place of a task or of a task mapping is outside the model: JavaScript's
  \<^verbatim>\<open>typeof\<close> calls it an object and the engine would scan it, the model passes it over.
\<close>

datatype json = JNull | JBool bool | JNum int | JNaN | JStr string
  | JArr "json list" | JObj "(string \<times> json) list"

text \<open>\<^verbatim>\<open>o[k]\<close> for the own properties of an object.\<close>

fun fld :: "json \<Rightarrow> string \<Rightarrow> json option" where
  "fld (JObj kvs) k = map_of kvs k"
| "fld _ k = None"

text \<open>\<^verbatim>\<open>o[k] = v\<close>: an existing key keeps its position, a new key goes last.\<close>

fun put :: "string \<Rightarrow> json \<Rightarrow> json \<Rightarrow> json" where
  "put k v (JObj kvs) = JObj (AList.update k v kvs)"
| "put k v j = j"

fun is_obj :: "json \<Rightarrow> bool" where
  "is_obj (JObj kvs) = True"
| "is_obj _ = False"

text \<open>JavaScript truthiness, as \<^verbatim>\<open>!x\<close> and \<^verbatim>\<open>if (x)\<close> test it.\<close>

fun truthy :: "json option \<Rightarrow> bool" where
  "truthy None = False"
| "truthy (Some JNull) = False"
| "truthy (Some (JBool b)) = b"
| "truthy (Some (JNum n)) = (n \<noteq> 0)"
| "truthy (Some JNaN) = False"
| "truthy (Some (JStr s)) = (s \<noteq> [])"
| "truthy (Some (JArr _)) = True"
| "truthy (Some (JObj _)) = True"

text \<open>
  \<^verbatim>\<open>a - b\<close> on the values the engine subtracts (time stamps). \<open>None\<close> is NaN; strings
  and containers are not converted (the engine never writes them into a time field).
\<close>

fun to_number :: "json option \<Rightarrow> int option" where
  "to_number (Some (JNum n)) = Some n"
| "to_number (Some JNull) = Some 0"
| "to_number (Some (JBool b)) = Some (if b then 1 else 0)"
| "to_number _ = None"

definition js_minus :: "json option \<Rightarrow> json option \<Rightarrow> json" where
  "js_minus a b =
     (case to_number a of None \<Rightarrow> JNaN
      | Some x \<Rightarrow> (case to_number b of None \<Rightarrow> JNaN | Some y \<Rightarrow> JNum (x - y)))"

subsection \<open>Decimal rendering: \<^verbatim>\<open>String(n)\<close> of an integer\<close>

definition digit_char :: "nat \<Rightarrow> char" where
  "digit_char d = ''0123456789'' ! d"

fun show_nat :: "nat \<Rightarrow> string" where
  "show_nat n = (if n < 10 then [digit_char n] else show_nat (n div 10) @ [digit_char (n mod 10)])"

declare show_nat.simps [simp del]

definition show_int :: "int \<Rightarrow> string" where
  "show_int i = (if i < 0 then CHR ''-'' # show_nat (nat (- i)) else show_nat (nat i))"

subsection \<open>\<^verbatim>\<open>getBoolean\<close>, \<^verbatim>\<open>setConditionValues\<close>, \<^verbatim>\<open>isBlocking\<close>\<close>

definition lower_char :: "char \<Rightarrow> char" where
  "lower_char c =
     (case map_of (zip ''ABCDEFGHIJKLMNOPQRSTUVWXYZ'' ''abcdefghijklmnopqrstuvwxyz'') c of
        Some l \<Rightarrow> l | None \<Rightarrow> c)"

definition toLowerCase :: "string \<Rightarrow> string" where
  "toLowerCase s = map lower_char s"

fun getBoolean :: "json option \<Rightarrow> bool" where
  "getBoolean (Some (JBool b)) = b"
| "getBoolean (Some (JStr s)) = (toLowerCase s = ''true'')"
| "getBoolean (Some (JNum n)) = (n \<noteq> 0)"
| "getBoolean (Some JNaN) = True"
| "getBoolean _ = False"

definition setConditionValues :: "json \<Rightarrow> json" where
  "setConditionValues task =
     (let t1 = (if fld task ''skipIf'' \<noteq> None
                then put ''skipIf'' (JBool (getBoolean (fld task ''skipIf''))) task else task)
      in if fld t1 ''errorIf'' \<noteq> None
         then put ''errorIf'' (JBool (getBoolean (fld t1 ''errorIf''))) t1 else t1)"

definition isBlocking :: "json \<Rightarrow> bool" where
  "isBlocking task = getBoolean (fld task ''blocking'')"

section \<open>Errors, handlers and the world outside the instance\<close>

text \<open>
  A JavaScript \<^verbatim>\<open>Error\<close> is its class and message. A handler is the default export of
  the module that \<^verbatim>\<open>task.handler\<close> names; it receives the workflow id, the task name
  and the task object, may change the task object, and either calls the completion
  callback once with \<^verbatim>\<open>(err, task)\<close> or throws. \<open>load\<close> is the dynamic import: it
  fails when the module is missing or exports no function.
\<close>

datatype error = Error string | TypeError string

fun message :: "error \<Rightarrow> string" where
  "message (Error m) = m"
| "message (TypeError m) = m"

datatype hresult = Callback "error option" json | Throws error json

type_synonym handler = "json option \<Rightarrow> string \<Rightarrow> json \<Rightarrow> hresult"

text \<open>
  The state outside the instance: \<open>ticks\<close> counts the calls of \<^verbatim>\<open>Date.now()\<close> so far
  (the \<open>k\<close>-th call returns \<open>clk k\<close>, for a clock \<open>clk\<close> given from outside), and \<open>db\<close>
  is the state of the persistence backend. Two logs record what the run did: \<open>invoked\<close>
  lists the handler invocations (task name and the task object passed) in order, and
  \<open>failures\<close> lists the tasks that reported an error to \<^verbatim>\<open>async.parallel\<close>, that is, the
  tasks on whose account a batch failed.
\<close>

record 's world =
  ticks :: nat
  invoked :: "(string \<times> json) list"
  failures :: "string list"
  db :: 's

definition now :: "(nat \<Rightarrow> nat) \<Rightarrow> 's world \<Rightarrow> json" where
  "now clk w = JNum (int (clk (ticks w)))"

definition tick :: "'s world \<Rightarrow> 's world" where
  "tick w = w\<lparr>ticks := Suc (ticks w)\<rparr>"

section \<open>\<^verbatim>\<open>executeTask\<close>\<close>

text \<open>\<^verbatim>\<open>String(x)\<close> of a JavaScript value (\<open>None\<close> is \<^verbatim>\<open>undefined\<close>).\<close>

fun js_String :: "json \<Rightarrow> string"
  and join_elems :: "json list \<Rightarrow> string" where
  "js_String JNull = ''null''"
| "js_String (JBool b) = (if b then ''true'' else ''false'')"
| "js_String (JNum n) = show_int n"
| "js_String JNaN = ''NaN''"
| "js_String (JStr s) = s"
| "js_String (JArr vs) = join_elems vs"
| "js_String (JObj kvs) = ''[object Object]''"
| "join_elems [] = []"
| "join_elems [v] = (if v = JNull then [] else js_String v)"
| "join_elems (v # w # vs) = (if v = JNull then [] else js_String v) @ '','' @ join_elems (w # vs)"

definition String_of :: "json option \<Rightarrow> string" where
  "String_of x = (case x of None \<Rightarrow> ''undefined'' | Some v \<Rightarrow> js_String v)"

text \<open>
  The block that both branches of \<^verbatim>\<open>executeTask\<close> run on a task still \<^verbatim>\<open>"executing"\<close>:
  it becomes \<^verbatim>\<open>"completed"\<close> and its times are stamped.
\<close>

definition stamp_completed :: "(nat \<Rightarrow> nat) \<Rightarrow> json \<Rightarrow> 's world \<Rightarrow> json" where
  "stamp_completed clk t w =
     (let t1 = put ''status'' (JStr ''completed'') t;
          t2 = put ''timeCompleted'' (now clk w) t1;
          t3 = put ''handlerDuration''
                 (js_minus (fld t2 ''timeCompleted'') (fld t2 ''timeStarted'')) t2
      in put ''totalDuration''
           (js_minus (fld t3 ''timeCompleted'') (fld t3 ''timeOpened'')) t3)"

definition complete :: "(nat \<Rightarrow> nat) \<Rightarrow> json \<Rightarrow> 's world \<Rightarrow> json \<times> 's world" where
  "complete clk t w =
     (if fld t ''status'' = Some (JStr ''executing'')
      then (stamp_completed clk t w, tick w) else (t, w))"

text \<open>The completion callback that \<^verbatim>\<open>executeTask\<close> hands to the handler.\<close>

definition handler_callback ::
  "(nat \<Rightarrow> nat) \<Rightarrow> error option \<Rightarrow> json \<Rightarrow> 's world \<Rightarrow> error option \<times> json \<times> 's world" where
  "handler_callback clk err returnedTask w =
     (let (err1, r1) =
            (case err of
               Some e \<Rightarrow>
                 (let r = put ''status'' (JStr ''error'')
                            (put ''errorMsg'' (JStr (message e)) returnedTask)
                  in if fld r ''ignoreError'' = Some (JBool True)
                     then (None, put ''status'' (JStr ''executing'') r)
                     else (Some e, r))
             | None \<Rightarrow> (None, returnedTask));
          (r2, w2) = complete clk r1 w;
          (r3, w3) =
            (if fld r2 ''status'' = Some (JStr ''paused'')
             then (put ''handlerDuration'' (js_minus (Some (now clk w2)) (fld r2 ''timeStarted'')) r2,
                   tick w2)
             else (r2, w2))
      in (err1, r3, w3))"

definition skip_condition :: "json \<Rightarrow> bool" where
  "skip_condition taskObject =
     (fld taskObject ''skipIf'' = Some (JBool True)
      \<or> fld taskObject ''errorIf'' = Some (JBool True)
      \<or> \<not> truthy (fld taskObject ''handler''))"

definition import_failed :: "error \<Rightarrow> json \<Rightarrow> 's world \<Rightarrow> error option \<times> json \<times> 's world" where
  "import_failed requireError taskObject w =
     (Some (Error (''Missing module or unexpected error! '' @ message requireError)),
      put ''status'' (JStr ''error'') (put ''errorMsg'' (JStr (message requireError)) taskObject),
      w)"

definition executeTask ::
  "(nat \<Rightarrow> nat) \<Rightarrow> (string \<Rightarrow> error + handler) \<Rightarrow> json option \<Rightarrow> string \<Rightarrow> json \<Rightarrow> 's world
     \<Rightarrow> error option \<times> json \<times> 's world" where
  "executeTask clk load workflowId taskName taskObject w =
     (let t0 = put ''timeStarted'' (now clk w) taskObject;
          w0 = tick w;
          skip = skip_condition t0;
          t1 = put ''handlerExecuted'' (JBool (\<not> skip)) t0
      in if \<not> skip then
           (case load (String_of (fld t1 ''handler'')) of
              Inl requireError \<Rightarrow> import_failed requireError t1 w0
            | Inr h \<Rightarrow>
                (case h workflowId taskName t1 of
                   Throws e t2 \<Rightarrow>
                     import_failed e t2 (w0\<lparr>invoked := invoked w0 @ [(taskName, t1)]\<rparr>)
                 | Callback err returnedTask \<Rightarrow>
                     handler_callback clk err returnedTask
                       (w0\<lparr>invoked := invoked w0 @ [(taskName, t1)]\<rparr>)))
         else
           (let errorIf = (fld t1 ''errorIf'' = Some (JBool True));
                msg = ''Task ['' @ taskName @ ''] has error condition set.'';
                t2 = (if errorIf
                      then put ''status'' (JStr ''error'') (put ''errorMsg'' (JStr msg) t1)
                      else t1);
                (t3, w3) = complete clk t2 w0
            in (if errorIf then Some (Error msg) else None, t3, w3)))"

section \<open>The handlers of the repository used in the scenarios\<close>

text \<open>
  \<^verbatim>\<open>taskHandlers/testHandler.js\<close>: reports a deliberate error when
  \<^verbatim>\<open>parameters.error === true\<close> and sets the status \<^verbatim>\<open>"paused"\<close> when
  \<^verbatim>\<open>parameters.paused === true\<close>. The delay only postpones the callback.
\<close>

definition testHandler :: handler where
  "testHandler workflowId taskName task =
     (if \<not> truthy (fld task ''parameters'') then
        Callback (Some (Error (''Task ['' @ taskName @ ''] has no parameters property!''))) task
      else
        (let parameters = (case fld task ''parameters'' of Some p \<Rightarrow> p | None \<Rightarrow> JNull);
             err = (if fld parameters ''error'' = Some (JBool True)
                    then Some (Error (''Task ['' @ taskName @ ''] is raising a deliberate error''))
                    else None);
             task1 = (if fld parameters ''paused'' = Some (JBool True)
                      then put ''status'' (JStr ''paused'') task else task)
         in Callback err task1))"

text \<open>
  \<^verbatim>\<open>taskHandlers/logHandler.js\<close>: validates \<^verbatim>\<open>parameters\<close> and \<^verbatim>\<open>parameters.log\<close>, writes
  the message to the logger (not part of the model) and leaves the task as it is. A
  truthy \<^verbatim>\<open>level\<close> that is not a string has no \<^verbatim>\<open>toLowerCase\<close>; the handler's own
  \<^verbatim>\<open>catch\<close> reports that error.
\<close>

definition logHandler :: handler where
  "logHandler workflowId taskName task =
     (if \<not> truthy (fld task ''parameters'') then
        Callback (Some (Error (''Task ['' @ taskName @ ''] has no parameters property!''))) task
      else
        (let parameters = (case fld task ''parameters'' of Some p \<Rightarrow> p | None \<Rightarrow> JNull)
         in if fld parameters ''log'' = None \<or> fld parameters ''log'' = Some JNull then
              Callback (Some (Error (''Task ['' @ taskName @ ''] has no parameters.log property!''))) task
            else
              (case fld parameters ''level'' of
                 Some (JStr l) \<Rightarrow> Callback None task
               | lv \<Rightarrow>
                   if truthy lv
                   then Callback (Some (TypeError ''toLowerCase is not a function'')) task
                   else Callback None task)))"

text \<open>A world with nothing in it, for the concrete runs below.\<close>

definition world0 :: "unit world" where
  "world0 = \<lparr>ticks = 0, invoked = [], failures = [], db = ()\<rparr>"

section \<open>The task tree\<close>

text \<open>
  A task lives in the instance at a path of keys: \<^verbatim>\<open>workflow.tasks.a.tasks.b\<close> is
  \<open>[''tasks'', ''a'', ''tasks'', ''b'']\<close>. JavaScript passes task objects by reference
  and changes them in place; the model passes the path and rewrites the instance there.
\<close>

fun get_at :: "json \<Rightarrow> string list \<Rightarrow> json option" where
  "get_at j [] = Some j"
| "get_at j (k # ks) = (case fld j k of None \<Rightarrow> None | Some c \<Rightarrow> get_at c ks)"

fun update_at :: "string list \<Rightarrow> (json \<Rightarrow> json) \<Rightarrow> json \<Rightarrow> json" where
  "update_at [] f j = f j"
| "update_at (k # ks) f j = (case fld j k of None \<Rightarrow> j | Some c \<Rightarrow> put k (update_at ks f c) j)"

text \<open>
  The entries of a task mapping, in \<^verbatim>\<open>Object.keys\<close> order; a value that is not an
  object has none (\<^verbatim>\<open>scanAllTasks\<close> returns at once on it).
\<close>

fun entries :: "json option \<Rightarrow> (string \<times> json) list" where
  "entries (Some (JObj kvs)) = kvs"
| "entries _ = []"

fun is_object :: "json option \<Rightarrow> bool" where
  "is_object (Some (JObj kvs)) = True"
| "is_object _ = False"

definition children :: "json \<Rightarrow> (string \<times> json) list" where
  "children task = entries (fld task ''tasks'')"

abbreviation entries_size :: "(string \<times> json) list \<Rightarrow> nat" where
  "entries_size kvs \<equiv> size_list (size_prod (\<lambda>_. 0) size) kvs"

lemma size_map_of: "map_of kvs k = Some v \<Longrightarrow> size v < entries_size kvs"
  by (induction kvs) (auto split: if_splits)

lemma size_children: "entries_size (children t) \<le> size t"
proof (cases t)
  case (JObj kvs)
  show ?thesis
  proof (cases "map_of kvs ''tasks''")
    case None
    with JObj show ?thesis by (simp add: children_def)
  next
    case (Some c)
    from size_map_of [OF Some] have "size c < entries_size kvs" .
    moreover have "entries_size (entries (Some c)) \<le> size c"
      by (cases c) simp_all
    ultimately show ?thesis using JObj Some by (simp add: children_def)
  qed
qed (simp_all add: children_def)

text \<open>
  \<^verbatim>\<open>scanAllTasks(tasks, deep, callback)\<close>: depth first, in insertion order; entries
  that are not objects are passed over; a callback that returns false stops the whole
  scan. The callback receives the path of the task besides the task and its name, and
  threads the state \<open>s\<close> that the JavaScript closure would change. The scan reads the
  mapping as it was when the scan began: the callbacks of the engine that change a task
  during a deep scan change its status only, or stop the scan.
\<close>

function scan_entries ::
  "(string \<times> json) list \<Rightarrow> string list \<Rightarrow> bool
     \<Rightarrow> (string list \<Rightarrow> json \<Rightarrow> string \<Rightarrow> 'a \<Rightarrow> 'a \<times> bool) \<Rightarrow> 'a \<Rightarrow> 'a \<times> bool" where
  "scan_entries [] pre deep callback s = (s, True)"
| "scan_entries ((taskName, task) # rest) pre deep callback s =
     (if \<not> is_obj task then scan_entries rest pre deep callback s
      else
        (case callback (pre @ [taskName]) task taskName s of
           (s1, continueScan) \<Rightarrow>
             if \<not> continueScan then (s1, False)
             else
               (case (if deep
                      then scan_entries (children task) (pre @ [taskName, ''tasks'']) True callback s1
                      else (s1, True)) of
                  (s2, childScan) \<Rightarrow>
                    if \<not> childScan then (s2, False)
                    else scan_entries rest pre deep callback s2)))"
  by pat_completeness auto
termination
proof (relation "measure (\<lambda>(kvs, pre, deep, callback, s). entries_size kvs)", goal_cases)
  case (3 taskName task)
  then show ?case using size_children [of task] by simp
qed simp_all

text \<open>
  Two predicates on a task mapping, to say what the scans compute: some entry is a task
  (an object), and every task at every depth satisfies \<open>P\<close>.
\<close>

fun has_task :: "(string \<times> json) list \<Rightarrow> bool" where
  "has_task [] = False"
| "has_task ((taskName, task) # rest) = (is_obj task \<or> has_task rest)"

function every_task :: "(json \<Rightarrow> bool) \<Rightarrow> (string \<times> json) list \<Rightarrow> bool" where
  "every_task P [] = True"
| "every_task P ((taskName, task) # rest) =
     (if is_obj task then P task \<and> every_task P (children task) \<and> every_task P rest
      else every_task P rest)"
  by pat_completeness auto
termination
proof (relation "measure (\<lambda>(P, kvs). entries_size kvs)", goal_cases)
  case (2 P taskName task rest)
  then show ?case using size_children [of task] by simp
qed simp_all

definition scanAllTasks ::
  "json option \<Rightarrow> string list \<Rightarrow> bool
     \<Rightarrow> (string list \<Rightarrow> json \<Rightarrow> string \<Rightarrow> 'a \<Rightarrow> 'a \<times> bool) \<Rightarrow> 'a \<Rightarrow> 'a \<times> bool" where
  "scanAllTasks tasks pre deep callback s = scan_entries (entries tasks) pre deep callback s"

text \<open>
  \<^verbatim>\<open>getTasksByStatus(parent, status, deep)\<close>: the dictionary from task name to task, here
  to the path of the task; a later task of the same name replaces the earlier one and
  keeps its place in the key order.
\<close>

definition getTasksByStatus :: "json \<Rightarrow> string \<Rightarrow> bool \<Rightarrow> (string \<times> string list) list" where
  "getTasksByStatus parent status deep =
     fst (scanAllTasks (fld parent ''tasks'') [''tasks''] deep
            (\<lambda>p task name openTasks.
               (if fld task ''status'' = Some (JStr status)
                then AList.update name p openTasks else openTasks, True))
            [])"

text \<open>
  \<^verbatim>\<open>childHasStatus(parent, status, all)\<close>; the state of the scan is
  \<open>(matchStatus, hasChecked)\<close>.
\<close>

definition childHasStatus :: "json \<Rightarrow> string \<Rightarrow> bool \<Rightarrow> bool" where
  "childHasStatus parent status all =
     (if \<not> truthy (fld parent ''tasks'') \<or> children parent = [] then False
      else
        (case fst (scanAllTasks (fld parent ''tasks'') [''tasks''] True
                     (\<lambda>p task name (matchStatus, hasChecked).
                        (let m = (fld task ''status'' = Some (JStr status))
                         in ((m, True), \<not> ((m \<and> \<not> all) \<or> (\<not> m \<and> all)))))
                     (False, False)) of
           (matchStatus, hasChecked) \<Rightarrow> hasChecked \<and> matchStatus))"

text \<open>\<^verbatim>\<open>setTaskStatusWaiting(workflow)\<close>; the state of the scan is the workflow.\<close>

definition setTaskStatusWaiting :: "json \<Rightarrow> json" where
  "setTaskStatusWaiting workflow =
     (let wf1 = put ''status'' (JStr ''open'') workflow
      in if \<not> truthy (fld wf1 ''tasks'') then put ''tasks'' (JObj []) wf1
         else fst (scanAllTasks (fld wf1 ''tasks'') [''tasks''] True
                     (\<lambda>p task name inst.
                        (if \<not> truthy (fld task ''status'')
                         then update_at p (put ''status'' (JStr ''waiting'')) inst else inst, True))
                     wf1))"

text \<open>
  \<^verbatim>\<open>openTasks(tasks)\<close>: a scan that is not deep, whose callback opens a waiting task
  and calls \<^verbatim>\<open>openTasks\<close> on its children. \<open>openTasks_entries\<close> is the loop of the scan
  over the entries, with the tasks as the callback leaves them; \<open>openTasks_callback\<close> is
  the callback: the task after the call, whether the scan goes on, and the world.
\<close>

function openTasks_entries ::
    "(nat \<Rightarrow> nat) \<Rightarrow> (string \<times> json) list \<Rightarrow> 's world \<Rightarrow> (string \<times> json) list \<times> 's world"
  and openTasks_callback ::
    "(nat \<Rightarrow> nat) \<Rightarrow> json \<Rightarrow> 's world \<Rightarrow> json \<times> bool \<times> 's world" where
  "openTasks_entries clk [] w = ([], w)"
| "openTasks_entries clk ((taskName, task) # rest) w =
     (if \<not> is_obj task then
        (case openTasks_entries clk rest w of (rest', w') \<Rightarrow> ((taskName, task) # rest', w'))
      else
        (case openTasks_callback clk task w of
           (task1, continueScan, w1) \<Rightarrow>
             if \<not> continueScan then ((taskName, task1) # rest, w1)
             else (case openTasks_entries clk rest w1 of
                     (rest', w') \<Rightarrow> ((taskName, task1) # rest', w'))))"
| "openTasks_callback clk task w =
     (if fld task ''status'' = Some (JStr ''open'') then
        (if childHasStatus task ''waiting'' False
         then (case openTasks_entries clk (children task) w of
                 (cs, w1) \<Rightarrow> (put ''tasks'' (JObj cs) task, \<not> isBlocking task, w1))
         else (task, \<not> isBlocking task, w))
      else if fld task ''status'' = Some (JStr ''waiting'') then
        (if is_object (fld task ''tasks'')
         then (case openTasks_entries clk (children task) (tick w) of
                 (cs, w1) \<Rightarrow>
                   (put ''tasks'' (JObj cs)
                      (put ''timeOpened'' (now clk w) (put ''status'' (JStr ''open'') task)),
                    \<not> isBlocking task, w1))
         else (put ''timeOpened'' (now clk w) (put ''status'' (JStr ''open'') task),
               \<not> isBlocking task, tick w))
      else (task, True, w))"
  by pat_completeness auto
termination
  by (relation "measure (\<lambda>x. case x of
          Inl (clk, kvs, w) \<Rightarrow> 2 * entries_size kvs
        | Inr (clk, task, w) \<Rightarrow> 2 * size task + 1)")
     (use size_children in \<open>auto simp: less_Suc_eq_le\<close>)

declare openTasks_callback.simps [simp del]

definition openTasks :: "(nat \<Rightarrow> nat) \<Rightarrow> json option \<Rightarrow> 's world \<Rightarrow> json option \<times> 's world" where
  "openTasks clk tasks w =
     (case tasks of
        Some (JObj kvs) \<Rightarrow> (case openTasks_entries clk kvs w of (kvs', w') \<Rightarrow> (Some (JObj kvs'), w'))
      | _ \<Rightarrow> (tasks, w))"

definition openNextAvailableTask :: "(nat \<Rightarrow> nat) \<Rightarrow> json \<Rightarrow> 's world \<Rightarrow> json \<times> 's world" where
  "openNextAvailableTask clk workflow w =
     (if \<not> truthy (fld workflow ''tasks'') then (workflow, w)
      else (case openTasks clk (fld workflow ''tasks'') w of
              (Some tasks', w') \<Rightarrow> (put ''tasks'' tasks' workflow, w')
            | (None, w') \<Rightarrow> (workflow, w')))"

section \<open>JSON text\<close>

text \<open>
  \<^verbatim>\<open>setTaskDataValues\<close> resolves references on the JSON text of each property of a
  task, so the model has \<^verbatim>\<open>JSON.stringify(value, null, 2)\<close> and \<^verbatim>\<open>JSON.parse\<close>.
  Characters are code units below 256.
\<close>

definition bs :: char where "bs = CHR 0x5C"
definition dq :: char where "dq = CHR 0x22"

definition hex_char :: "nat \<Rightarrow> char" where
  "hex_char d = ''0123456789abcdef'' ! d"

definition quote_char :: "char \<Rightarrow> string" where
  "quote_char c =
     (if c = dq then [bs, dq]
      else if c = bs then [bs, bs]
      else if c = CHR 0x08 then [bs, CHR ''b'']
      else if c = CHR 0x0C then [bs, CHR ''f'']
      else if c = CHR 0x0A then [bs, CHR ''n'']
      else if c = CHR 0x0D then [bs, CHR ''r'']
      else if c = CHR 0x09 then [bs, CHR ''t'']
      else if (of_char c :: nat) < 32
        then [bs, CHR ''u'', CHR ''0'', CHR ''0'', hex_char (of_char c div 16), hex_char (of_char c mod 16)]
      else [c])"

definition quote :: "string \<Rightarrow> string" where
  "quote s = dq # concat (map quote_char s) @ [dq]"

definition spaces :: "nat \<Rightarrow> string" where
  "spaces n = replicate n (CHR '' '')"

fun join_with :: "string \<Rightarrow> string list \<Rightarrow> string" where
  "join_with sep [] = []"
| "join_with sep [x] = x"
| "join_with sep (x # y # ys) = x @ sep @ join_with sep (y # ys)"

fun stringify_ind :: "nat \<Rightarrow> json \<Rightarrow> string" where
  "stringify_ind i JNull = ''null''"
| "stringify_ind i (JBool b) = (if b then ''true'' else ''false'')"
| "stringify_ind i (JNum n) = show_int n"
| "stringify_ind i JNaN = ''null''"
| "stringify_ind i (JStr s) = quote s"
| "stringify_ind i (JArr vs) =
     (if vs = [] then ''[]''
      else ''['' @ [CHR 0x0A] @ spaces (i + 2)
           @ join_with ('','' @ [CHR 0x0A] @ spaces (i + 2)) (map (stringify_ind (i + 2)) vs)
           @ [CHR 0x0A] @ spaces i @ '']'')"
| "stringify_ind i (JObj kvs) =
     (if kvs = [] then ''{}''
      else ''{'' @ [CHR 0x0A] @ spaces (i + 2)
           @ join_with ('','' @ [CHR 0x0A] @ spaces (i + 2))
               (map (\<lambda>kv. quote (fst kv) @ '': '' @ stringify_ind (i + 2) (snd kv)) kvs)
           @ [CHR 0x0A] @ spaces i @ ''}'')"

definition JSON_stringify :: "json \<Rightarrow> string" where
  "JSON_stringify v = stringify_ind 0 v"

subsection \<open>\<^verbatim>\<open>JSON.parse\<close>\<close>

definition is_ws :: "char \<Rightarrow> bool" where
  "is_ws c = (c = CHR '' '' \<or> c = CHR 0x09 \<or> c = CHR 0x0A \<or> c = CHR 0x0D)"

fun skip_ws :: "string \<Rightarrow> string" where
  "skip_ws [] = []"
| "skip_ws (c # cs) = (if is_ws c then skip_ws cs else c # cs)"

definition digit_val :: "char \<Rightarrow> nat option" where
  "digit_val c = map_of (zip ''0123456789'' [0 ..< 10]) c"

definition hex_val :: "char \<Rightarrow> nat option" where
  "hex_val c = map_of (zip ''0123456789abcdefABCDEF'' ([0 ..< 16] @ [10 ..< 16])) c"

definition is_digit :: "char \<Rightarrow> bool" where
  "is_digit c = (digit_val c \<noteq> None)"

definition nat_of_digits :: "string \<Rightarrow> nat" where
  "nat_of_digits ds = foldl (\<lambda>n c. 10 * n + (case digit_val c of Some d \<Rightarrow> d | None \<Rightarrow> 0)) 0 ds"

text \<open>
  The characters of a string literal after its opening quote: the string and the text
  after the closing quote. An escape other than the nine of JSON, and a raw control
  character, is a syntax error (\<open>None\<close>).
\<close>

fun parse_string :: "string \<Rightarrow> string \<Rightarrow> (string \<times> string) option" where
  "parse_string acc [] = None"
| "parse_string acc [c] = (if c = dq then Some (acc, []) else None)"
| "parse_string acc (c # e # cs) =
     (if c = dq then Some (acc, e # cs)
      else if c = bs then
        (if e = dq \<or> e = bs \<or> e = CHR ''/'' then parse_string (acc @ [e]) cs
         else if e = CHR ''b'' then parse_string (acc @ [CHR 0x08]) cs
         else if e = CHR ''f'' then parse_string (acc @ [CHR 0x0C]) cs
         else if e = CHR ''n'' then parse_string (acc @ [CHR 0x0A]) cs
         else if e = CHR ''r'' then parse_string (acc @ [CHR 0x0D]) cs
         else if e = CHR ''t'' then parse_string (acc @ [CHR 0x09]) cs
         else if e = CHR ''u'' then
           (case map hex_val (take 4 cs) of
              [Some a, Some b, Some c', Some d] \<Rightarrow>
                (if a = 0 \<and> b = 0
                 then parse_string (acc @ [char_of (16 * c' + d)]) (drop 4 cs) else None)
            | _ \<Rightarrow> None)
         else None)
      else if (of_char c :: nat) < 32 then None
      else parse_string (acc @ [c]) (e # cs))"

text \<open>An integer literal; a fraction or an exponent is outside the numbers of the model.\<close>

definition parse_number :: "string \<Rightarrow> (json \<times> string) option" where
  "parse_number s =
     (let neg = (take 1 s = ''-'');
          s1 = (if neg then drop 1 s else s);
          ds = takeWhile is_digit s1;
          r = dropWhile is_digit s1
      in if ds = [] \<or> (hd ds = CHR ''0'' \<and> length ds > 1)
            \<or> take 1 r = ''.'' \<or> take 1 r = ''e'' \<or> take 1 r = ''E''
         then None
         else Some (JNum (if neg then - int (nat_of_digits ds) else int (nat_of_digits ds)), r))"

text \<open>
  The recursive descent; the first argument bounds the depth of the calls, and
  \<open>JSON_parse\<close> gives it more than any text of that length can use.
\<close>

fun parse_value :: "nat \<Rightarrow> string \<Rightarrow> (json \<times> string) option"
  and parse_elements :: "nat \<Rightarrow> json list \<Rightarrow> string \<Rightarrow> (json \<times> string) option"
  and parse_members :: "nat \<Rightarrow> (string \<times> json) list \<Rightarrow> string \<Rightarrow> (json \<times> string) option" where
  "parse_value 0 s = None"
| "parse_value (Suc n) s =
     (case skip_ws s of
        [] \<Rightarrow> None
      | c # r \<Rightarrow>
          if c = CHR ''{'' then
            (case skip_ws r of
               [] \<Rightarrow> None
             | d # r' \<Rightarrow> if d = CHR ''}'' then Some (JObj [], r') else parse_members n [] (d # r'))
          else if c = CHR ''['' then
            (case skip_ws r of
               [] \<Rightarrow> None
             | d # r' \<Rightarrow> if d = CHR '']'' then Some (JArr [], r') else parse_elements n [] (d # r'))
          else if c = dq then
            (case parse_string [] r of None \<Rightarrow> None | Some (str, r') \<Rightarrow> Some (JStr str, r'))
          else if take 4 (c # r) = ''true'' then Some (JBool True, drop 4 (c # r))
          else if take 5 (c # r) = ''false'' then Some (JBool False, drop 5 (c # r))
          else if take 4 (c # r) = ''null'' then Some (JNull, drop 4 (c # r))
          else parse_number (c # r))"
| "parse_elements 0 acc s = None"
| "parse_elements (Suc n) acc s =
     (case parse_value n s of
        None \<Rightarrow> None
      | Some (v, r) \<Rightarrow>
          (case skip_ws r of
             [] \<Rightarrow> None
           | c # r' \<Rightarrow>
               if c = CHR '','' then parse_elements n (acc @ [v]) r'
               else if c = CHR '']'' then Some (JArr (acc @ [v]), r')
               else None))"
| "parse_members 0 acc s = None"
| "parse_members (Suc n) acc s =
     (case skip_ws s of
        [] \<Rightarrow> None
      | c # r \<Rightarrow>
          if c \<noteq> dq then None
          else
            (case parse_string [] r of
               None \<Rightarrow> None
             | Some (k, r1) \<Rightarrow>
                 (case skip_ws r1 of
                    [] \<Rightarrow> None
                  | c1 # r2 \<Rightarrow>
                      if c1 \<noteq> CHR '':'' then None
                      else
                        (case parse_value n r2 of
                           None \<Rightarrow> None
                         | Some (v, r3) \<Rightarrow>
                             (case skip_ws r3 of
                                [] \<Rightarrow> None
                              | c3 # r4 \<Rightarrow>
                                  if c3 = CHR '','' then parse_members n (AList.update k v acc) r4
                                  else if c3 = CHR ''}'' then Some (JObj (AList.update k v acc), r4)
                                  else None)))))"

definition JSON_parse :: "string \<Rightarrow> json option" where
  "JSON_parse s =
     (case parse_value (2 * length s + 2) s of
        None \<Rightarrow> None
      | Some (v, r) \<Rightarrow> if skip_ws r = [] then Some v else None)"

section \<open>References: \<^verbatim>\<open>getData\<close> and \<^verbatim>\<open>setTaskDataValues\<close>\<close>

text \<open>
  \<^verbatim>\<open>current[p]\<close> as \<^verbatim>\<open>getData\<close> reads it: an own property of an object, an element or
  the length of an array, a character or the length of a string.
\<close>

definition index_of :: "string \<Rightarrow> nat \<Rightarrow> nat option" where
  "index_of p n = (case filter (\<lambda>i. show_nat i = p) [0 ..< n] of [] \<Rightarrow> None | i # _ \<Rightarrow> Some i)"

fun js_get :: "json \<Rightarrow> string \<Rightarrow> json option" where
  "js_get (JObj kvs) p = map_of kvs p"
| "js_get (JArr vs) p =
     (if p = ''length'' then Some (JNum (int (length vs)))
      else (case index_of p (length vs) of Some i \<Rightarrow> Some (vs ! i) | None \<Rightarrow> None))"
| "js_get (JStr s) p =
     (if p = ''length'' then Some (JNum (int (length s)))
      else (case index_of p (length s) of Some i \<Rightarrow> Some (JStr [s ! i]) | None \<Rightarrow> None))"
| "js_get _ p = None"

text \<open>\<^verbatim>\<open>path.split(".")\<close>\<close>

fun split_dot :: "string \<Rightarrow> string \<Rightarrow> string list" where
  "split_dot acc [] = [acc]"
| "split_dot acc (c # cs) = (if c = CHR ''.'' then acc # split_dot [] cs else split_dot (acc @ [c]) cs)"

text \<open>\<^verbatim>\<open>p.match(/^([^\[]+)\[(\d+)\]$/)\<close>: the key and the index.\<close>

definition arrayMatch :: "string \<Rightarrow> (string \<times> nat) option" where
  "arrayMatch p =
     (let key = takeWhile (\<lambda>c. c \<noteq> CHR ''['') p;
          r = dropWhile (\<lambda>c. c \<noteq> CHR ''['') p;
          ds = takeWhile is_digit (drop 1 r)
      in if key \<noteq> [] \<and> r \<noteq> [] \<and> ds \<noteq> [] \<and> dropWhile is_digit (drop 1 r) = '']''
         then Some (key, nat_of_digits ds) else None)"

definition getData_step :: "json option \<Rightarrow> string \<Rightarrow> json option" where
  "getData_step current p =
     (case current of
        None \<Rightarrow> None
      | Some JNull \<Rightarrow> Some JNull
      | Some cur \<Rightarrow>
          if CHR ''['' \<in> set p \<and> CHR '']'' \<in> set p then
            (case arrayMatch p of
               Some (key, i) \<Rightarrow>
                 (case js_get cur key of
                    Some (JArr vs) \<Rightarrow> (if i < length vs then Some (vs ! i) else None)
                  | c \<Rightarrow> c)
             | None \<Rightarrow> js_get cur p)
          else js_get cur p)"

definition getData :: "json \<Rightarrow> string \<Rightarrow> json option" where
  "getData workflow path =
     (if path = [] then None else foldl getData_step (Some workflow) (split_dot [] path))"

text \<open>\<^verbatim>\<open>valueStr.match(/\$\[([^\]]+)\]/g)\<close>: the matches from left to right.\<close>

function find_refs :: "string \<Rightarrow> string list" where
  "find_refs [] = []"
| "find_refs (c # cs) =
     (if c = CHR ''$'' \<and> take 1 cs = ''['' then
        (let body = takeWhile (\<lambda>x. x \<noteq> CHR '']'') (drop 1 cs);
             r = dropWhile (\<lambda>x. x \<noteq> CHR '']'') (drop 1 cs)
         in if body \<noteq> [] \<and> r \<noteq> [] then (''$['' @ body @ '']'') # find_refs (drop 1 r)
            else find_refs cs)
      else find_refs cs)"
  by pat_completeness auto
termination
proof (relation "measure length", goal_cases)
  case (2 c cs body r)
  have "length (dropWhile (\<lambda>x. x \<noteq> CHR '']'') (drop 1 cs)) \<le> length cs"
    by (rule order_trans [OF length_dropWhile_le]) simp
  with 2 show ?case by simp
qed simp_all

text \<open>
  \<^verbatim>\<open>subject.replace(pattern, replacement)\<close> for a string pattern: the first occurrence,
  with the patterns \<^verbatim>\<open>$$\<close>, \<^verbatim>\<open>$&\<close>, \<^verbatim>\<open>$`\<close> and \<^verbatim>\<open>$'\<close> of the replacement expanded.
\<close>

fun split_first :: "string \<Rightarrow> string \<Rightarrow> (string \<times> string) option" where
  "split_first pat [] = (if pat = [] then Some ([], []) else None)"
| "split_first pat (c # cs) =
     (if take (length pat) (c # cs) = pat then Some ([], drop (length pat) (c # cs))
      else (case split_first pat cs of None \<Rightarrow> None | Some (b, a) \<Rightarrow> Some (c # b, a)))"

fun expand_dollar :: "string \<Rightarrow> string \<Rightarrow> string \<Rightarrow> string \<Rightarrow> string" where
  "expand_dollar [] m b a = []"
| "expand_dollar [c] m b a = [c]"
| "expand_dollar (c # d # r) m b a =
     (if c = CHR ''$'' \<and> d = CHR ''$'' then CHR ''$'' # expand_dollar r m b a
      else if c = CHR ''$'' \<and> d = CHR ''&'' then m @ expand_dollar r m b a
      else if c = CHR ''$'' \<and> d = CHR 0x60 then b @ expand_dollar r m b a
      else if c = CHR ''$'' \<and> d = CHR 0x27 then a @ expand_dollar r m b a
      else c # expand_dollar (d # r) m b a)"

definition js_replace :: "string \<Rightarrow> string \<Rightarrow> string \<Rightarrow> string" where
  "js_replace subject pat replacement =
     (case split_first pat subject of
        None \<Rightarrow> subject
      | Some (b, a) \<Rightarrow> b @ expand_dollar replacement pat b a @ a)"

text \<open>
  The chain of \<^verbatim>\<open>replace\<close> calls on a string value. \<^verbatim>\<open>.replace(/x/g, r)\<close> for a single
  character is \<open>replace_all\<close>; \<^verbatim>\<open>/\b/\<close> is the word boundary of regular expressions, so
  \<^verbatim>\<open>.replace(/\b/g, "\\b")\<close> inserts a backslash and a \<^verbatim>\<open>b\<close> at every boundary between
  a word character and a character that is none (or an end of the string).
\<close>

definition replace_all :: "char \<Rightarrow> string \<Rightarrow> string \<Rightarrow> string" where
  "replace_all c r s = concat (map (\<lambda>x. if x = c then r else [x]) s)"

definition is_word_char :: "char \<Rightarrow> bool" where
  "is_word_char c =
     (c \<in> set ''abcdefghijklmnopqrstuvwxyzABCDEFGHIJKLMNOPQRSTUVWXYZ0123456789_'')"

fun word_boundaries :: "bool \<Rightarrow> string \<Rightarrow> string" where
  "word_boundaries prev [] = (if prev then [bs, CHR ''b''] else [])"
| "word_boundaries prev (c # cs) =
     (if is_word_char c \<noteq> prev then [bs, CHR ''b''] else []) @ c # word_boundaries (is_word_char c) cs"

definition escaped :: "string \<Rightarrow> string" where
  "escaped dataValue =
     replace_all (CHR 0x27) [bs, CHR 0x27]
       (replace_all dq [bs, dq]
         (replace_all (CHR 0x09) [bs, CHR ''t'']
           (replace_all (CHR 0x0D) [bs, CHR ''r'']
             (replace_all (CHR 0x0A) [bs, CHR ''n'']
               (replace_all (CHR 0x0C) [bs, CHR ''f'']
                 (word_boundaries False
                   (replace_all (CHR ''/'') [bs, CHR ''/'']
                     (replace_all bs [bs, bs] dataValue))))))))"

text \<open>The body of the loop over the references of one property.\<close>

definition replace_ref :: "json \<Rightarrow> string \<Rightarrow> string \<Rightarrow> string" where
  "replace_ref workflow valueStr rawRef =
     (let ref = drop 2 (butlast rawRef);
          dataValue = (case getData workflow ref of None \<Rightarrow> JNull | Some v \<Rightarrow> v)
      in case dataValue of
           JStr s \<Rightarrow> js_replace valueStr rawRef (escaped s)
         | _ \<Rightarrow>
             (let jsonVal = JSON_stringify dataValue;
                  replaced = js_replace valueStr ([dq] @ rawRef @ [dq]) jsonVal
              in if valueStr = replaced then js_replace valueStr rawRef (js_String dataValue)
                 else replaced))"

text \<open>The body of the loop over the properties of the task at path \<open>p\<close>.\<close>

definition set_property :: "string list \<Rightarrow> json \<Rightarrow> string \<Rightarrow> json" where
  "set_property p workflow propKey =
     (case get_at workflow (p @ [propKey]) of
        None \<Rightarrow> workflow
      | Some v \<Rightarrow>
          (let valueStr = JSON_stringify v;
               refValues = find_refs valueStr
           in if refValues = [] then workflow
              else
                (case JSON_parse (foldl (replace_ref workflow) valueStr refValues) of
                   Some v' \<Rightarrow> update_at (p @ [propKey]) (\<lambda>_. v') workflow
                 | None \<Rightarrow> workflow)))"

definition setTaskDataValues :: "json \<Rightarrow> string list \<Rightarrow> json" where
  "setTaskDataValues workflow p =
     (case get_at workflow p of
        Some (JObj kvs) \<Rightarrow> foldl (set_property p) workflow (map fst kvs)
      | _ \<Rightarrow> workflow)"

section \<open>The file backend: \<^verbatim>\<open>persistence/file.js\<close>\<close>

text \<open>
  The data directory is a finite map from file name to content. An instance id is used
  as a file name as it is; \<^verbatim>\<open>path.join\<close> throws a \<^verbatim>\<open>TypeError\<close> on an id that is
  not a string, which the \<^verbatim>\<open>catch\<close> of each operation hands to the callback.
\<close>

type_synonym files = "(string \<times> string) list"

definition fs_exists :: "files \<Rightarrow> string \<Rightarrow> bool" where
  "fs_exists fs name = (map_of fs name \<noteq> None)"

definition fs_writeFile :: "string \<Rightarrow> string \<Rightarrow> files \<Rightarrow> files" where
  "fs_writeFile name content fs = AList.update name content fs"

definition fs_rename :: "string \<Rightarrow> string \<Rightarrow> files \<Rightarrow> files" where
  "fs_rename src dst fs =
     (case map_of fs src of
        None \<Rightarrow> fs
      | Some content \<Rightarrow> AList.update dst content (AList.delete src fs))"

text \<open>\<^verbatim>\<open>glob(`${current}_*`)\<close>: the names that begin with the id and an underscore.\<close>

definition is_history :: "string \<Rightarrow> string \<Rightarrow> bool" where
  "is_history current name = (take (length current + 1) name = current @ ''_'')"

definition history_files :: "files \<Rightarrow> string \<Rightarrow> string list" where
  "history_files fs current = filter (is_history current) (map fst fs)"

definition path_error :: error where
  "path_error = TypeError ''The path argument must be of type string''"

definition file_saveInstance ::
  "(nat \<Rightarrow> nat) \<Rightarrow> json \<Rightarrow> files world \<Rightarrow> error option \<times> files world" where
  "file_saveInstance clk workflow w =
     (case fld workflow ''id'' of
        Some (JStr current) \<Rightarrow>
          (let w1 = (if fs_exists (db w) current
                     then (let historyFile = current @ ''_'' @ show_nat (clk (ticks w))
                           in (tick w)\<lparr>db := fs_rename current historyFile (db w)\<rparr>)
                     else w)
           in (None, w1\<lparr>db := fs_writeFile current (JSON_stringify workflow) (db w1)\<rparr>))
      | _ \<Rightarrow> (Some path_error, w))"

text \<open>A sequence of saves, one after the other.\<close>

definition save_all :: "(nat \<Rightarrow> nat) \<Rightarrow> json list \<Rightarrow> files world \<Rightarrow> files world" where
  "save_all clk wfs w = foldl (\<lambda>w' workflow. snd (file_saveInstance clk workflow w')) w wfs"

definition file_loadInstance :: "json \<Rightarrow> int \<Rightarrow> files world \<Rightarrow> error + json" where
  "file_loadInstance ident rewind w =
     (case ident of
        JStr current \<Rightarrow>
          (let fs = history_files (db w) current;
               targetFile =
                 (if fs \<noteq> [] \<and> rewind > 0
                  then (let rewind1 = (if rewind > int (length fs) then int (length fs) else rewind)
                        in sort fs ! nat (int (length fs) - rewind1))
                  else current)
           in case map_of (db w) targetFile of
                None \<Rightarrow> Inl (Error (''ENOENT: no such file or directory, open '' @ targetFile))
              | Some content \<Rightarrow>
                  (case JSON_parse content of
                     None \<Rightarrow> Inl (Error ''Unexpected token in JSON'')
                   | Some workflowLoaded \<Rightarrow> Inr workflowLoaded))
      | _ \<Rightarrow> Inl path_error)"

section \<open>The engine: \<^verbatim>\<open>processus.js\<close>\<close>

text \<open>
  What the engine takes from outside: the clock, the dynamic import of handler modules,
  the process environment, the id that \<^verbatim>\<open>uuidv4()\<close> returns, and the backend that
  \<^verbatim>\<open>persistence/store.js\<close> selects.
\<close>

record 's engine =
  Date_now :: "nat \<Rightarrow> nat"
  import_module :: "string \<Rightarrow> error + handler"
  process_env :: json
  uuidv4 :: string
  store_saveInstance :: "json \<Rightarrow> 's world \<Rightarrow> error option \<times> 's world"
  store_loadInstance :: "json \<Rightarrow> int \<Rightarrow> 's world \<Rightarrow> error + json"

text \<open>
  \<^verbatim>\<open>JSON.parse(JSON.stringify(workflow))\<close> on a value: a copy in which \<^verbatim>\<open>NaN\<close> has
  become \<^verbatim>\<open>null\<close>.
\<close>

fun clone :: "json \<Rightarrow> json" where
  "clone JNaN = JNull"
| "clone (JArr vs) = JArr (map clone vs)"
| "clone (JObj kvs) = JObj (map (\<lambda>kv. (fst kv, clone (snd kv))) kvs)"
| "clone v = v"

definition addEnvVars :: "'s engine \<Rightarrow> json \<Rightarrow> json" where
  "addEnvVars cfg workflow = put ''environment'' (process_env cfg) workflow"

definition validateWorkflow :: "'s engine \<Rightarrow> json \<Rightarrow> json" where
  "validateWorkflow cfg workflow =
     (let inst = setTaskStatusWaiting (clone workflow)
      in if \<not> truthy (fld inst ''id'') then put ''id'' (JStr (uuidv4 cfg)) inst else inst)"

text \<open>
  The loop of \<^verbatim>\<open>realExecute\<close> over the open tasks: a task that is open and has no
  children, or whose descendants are all completed, has its references resolved, its
  conditions coerced and its status set to \<^verbatim>\<open>"executing"\<close>, and joins the queue.
\<close>

definition make_ready :: "string list \<Rightarrow> json \<Rightarrow> json" where
  "make_ready p workflow =
     update_at p (put ''status'' (JStr ''executing''))
       (update_at p setConditionValues (setTaskDataValues workflow p))"

fun enqueue :: "json \<Rightarrow> (string \<times> string list) list \<Rightarrow> json \<times> (string \<times> string list) list" where
  "enqueue workflow [] = (workflow, [])"
| "enqueue workflow ((taskName, p) # rest) =
     (case get_at workflow p of
        None \<Rightarrow> enqueue workflow rest
      | Some task \<Rightarrow>
          if fld task ''status'' = Some (JStr ''open'') \<and> \<not> truthy (fld task ''tasks'') then
            (case enqueue (make_ready p workflow) rest of
               (inst, queue) \<Rightarrow> (inst, (taskName, p) # queue))
          else if fld task ''status'' = Some (JStr ''open'') \<and> truthy (fld task ''tasks'')
                  \<and> childHasStatus task ''completed'' True then
            (case enqueue (make_ready p workflow) rest of
               (inst, queue) \<Rightarrow> (inst, (taskName, p) # queue))
          else enqueue workflow rest)"

text \<open>
  \<^verbatim>\<open>async.parallel(taskExecutionQueue, ...)\<close>: every queued task is executed; the error
  of the batch is the first error reported. The handlers of the model report at once, in
  queue order, and the batch calls back when all have reported; \<^verbatim>\<open>async.parallel\<close> calls
  back at the first error, while the other tasks of the batch may still be running. The
  name of a task for which \<^verbatim>\<open>executeTask\<close> reports an error is appended to the log
  \<open>failures\<close>.
\<close>

fun parallel ::
  "'s engine \<Rightarrow> json \<Rightarrow> (string \<times> string list) list \<Rightarrow> 's world
     \<Rightarrow> error option \<times> json \<times> 's world" where
  "parallel cfg workflow [] w = (None, workflow, w)"
| "parallel cfg workflow ((taskName, p) # rest) w =
     (case get_at workflow p of
        None \<Rightarrow> parallel cfg workflow rest w
      | Some taskObject \<Rightarrow>
          (case executeTask (Date_now cfg) (import_module cfg) (fld workflow ''id'')
                  taskName taskObject w of
             (err, t', w1) \<Rightarrow>
               (case parallel cfg (update_at p (\<lambda>_. t') workflow) rest
                       (case err of
                          Some e \<Rightarrow> w1\<lparr>failures := failures w1 @ [taskName]\<rparr>
                        | None \<Rightarrow> w1) of
                  (err2, wf2, w2) \<Rightarrow>
                    ((case err of Some e \<Rightarrow> Some e | None \<Rightarrow> err2), wf2, w2))))"

text \<open>
  \<^verbatim>\<open>realExecute\<close> calls itself after every batch without error and may never return;
  the first argument bounds the number of passes, and \<open>None\<close> is a run that needs more.
\<close>

fun realExecute ::
  "nat \<Rightarrow> 's engine \<Rightarrow> json \<Rightarrow> 's world \<Rightarrow> (error option \<times> json \<times> 's world) option" where
  "realExecute 0 cfg workflow w = None"
| "realExecute (Suc n) cfg workflow w =
     (case store_saveInstance cfg workflow w of
        (Some err, w1) \<Rightarrow> Some (Some err, workflow, w1)
      | (None, w1) \<Rightarrow>
          if getTasksByStatus workflow ''paused'' True \<noteq> [] then Some (None, workflow, w1)
          else
            (case openNextAvailableTask (Date_now cfg) workflow w1 of
               (wf2, w2) \<Rightarrow>
                 (case enqueue wf2 (getTasksByStatus wf2 ''open'' True) of
                    (wf3, taskExecutionQueue) \<Rightarrow>
                      if taskExecutionQueue \<noteq> [] then
                        (case parallel cfg wf3 taskExecutionQueue w2 of
                           (None, wf4, w4) \<Rightarrow> realExecute n cfg wf4 w4
                         | (Some error, wf4, w4) \<Rightarrow>
                             (case store_saveInstance cfg (put ''status'' (JStr ''error'') wf4) w4 of
                                (Some saveErr, w5) \<Rightarrow>
                                  Some (Some saveErr, put ''status'' (JStr ''error'') wf4, w5)
                              | (None, w5) \<Rightarrow>
                                  Some (Some error, put ''status'' (JStr ''error'') wf4, w5)))
                      else
                        (let wf4 = (if childHasStatus wf3 ''completed'' True
                                    then put ''status'' (JStr ''completed'') wf3 else wf3)
                         in case store_saveInstance cfg wf4 w2 of
                              (saveErr, w5) \<Rightarrow> Some (saveErr, wf4, w5)))))"

text \<open>
  \<^verbatim>\<open>executePrePost\<close>: the hook task, if there is one, is run like a leaf task and its
  error is dropped. A hook that is truthy but no object makes the property writes throw.
\<close>

definition executePrePost ::
  "'s engine \<Rightarrow> json \<Rightarrow> string \<Rightarrow> 's world \<Rightarrow> error option \<times> json \<times> 's world" where
  "executePrePost cfg workflow taskName w =
     (if truthy (fld workflow taskName) then
        (if \<not> is_object (fld workflow taskName)
         then (Some (TypeError ''Cannot create property status''), workflow, w)
         else
           (let wf1 = update_at [taskName] setConditionValues (setTaskDataValues workflow [taskName]);
                wf2 = update_at [taskName]
                        (\<lambda>t. put ''timeOpened'' (now (Date_now cfg) w)
                                (put ''status'' (JStr ''executing'') t)) wf1
            in case get_at wf2 [taskName] of
                 None \<Rightarrow> (None, wf2, tick w)
               | Some task \<Rightarrow>
                   (case executeTask (Date_now cfg) (import_module cfg) (fld wf2 ''id'')
                           taskName task (tick w) of
                      (err, t', w1) \<Rightarrow> (None, update_at [taskName] (\<lambda>_. t') wf2, w1))))
      else (None, workflow, w))"

definition doPre :: "'s engine \<Rightarrow> json \<Rightarrow> 's world \<Rightarrow> error option \<times> json \<times> 's world" where
  "doPre cfg workflow w = executePrePost cfg workflow ''pre workflow'' w"

definition doPost :: "'s engine \<Rightarrow> json \<Rightarrow> 's world \<Rightarrow> error option \<times> json \<times> 's world" where
  "doPost cfg workflow w = executePrePost cfg workflow ''post workflow'' w"

text \<open>
  \<^verbatim>\<open>execute(workflow, callback)\<close>. The result is what the callback receives, the world
  after the run, and last the object that the caller passed in, as the run leaves it.
\<close>

definition execute ::
  "nat \<Rightarrow> 's engine \<Rightarrow> json \<Rightarrow> 's world \<Rightarrow> (error option \<times> json \<times> 's world \<times> json) option" where
  "execute fuel cfg workflow w =
     (if \<not> is_obj workflow
      then Some (Some (TypeError ''Cannot set properties''), workflow, w, workflow)
      else
        (let caller = addEnvVars cfg workflow;
             wf0 = validateWorkflow cfg caller
         in case doPre cfg wf0 w of
              (Some err, inst, w1) \<Rightarrow> Some (Some err, inst, w1, caller)
            | (None, inst, w1) \<Rightarrow>
                (case realExecute fuel cfg inst w1 of
                   None \<Rightarrow> None
                 | Some (Some err2, wf2, w2) \<Rightarrow> Some (Some err2, wf2, w2, caller)
                 | Some (None, wf2, w2) \<Rightarrow>
                     (case doPost cfg wf2 w2 of
                        (err3, finalWf, w3) \<Rightarrow> Some (err3, finalWf, w3, caller)))))"

subsection \<open>\<^verbatim>\<open>updateTasks\<close> and \<^verbatim>\<open>mergeTasks\<close>\<close>

text \<open>
  \<^verbatim>\<open>mergeTask\<close>: a property that the new task lacks is set to \<^verbatim>\<open>undefined\<close>, which the
  clone of \<^verbatim>\<open>execute\<close> then drops; the model removes it.
\<close>

definition assign :: "string \<Rightarrow> json option \<Rightarrow> json \<Rightarrow> json" where
  "assign k v j =
     (case v of
        Some x \<Rightarrow> put k x j
      | None \<Rightarrow> (case j of JObj kvs \<Rightarrow> JObj (AList.delete k kvs) | _ \<Rightarrow> j))"

definition mergeTask :: "(nat \<Rightarrow> nat) \<Rightarrow> json \<Rightarrow> 's world \<Rightarrow> json \<Rightarrow> json" where
  "mergeTask clk newTask w originalTask =
     (let t1 = assign ''parameters'' (fld newTask ''parameters'') originalTask;
          t2 = assign ''status'' (fld newTask ''status'') t1;
          t3 = assign ''errorIf'' (fld newTask ''errorIf'') t2;
          t4 = assign ''skipIf'' (fld newTask ''skipIf'') t3;
          t5 = assign ''tasks'' (fld newTask ''tasks'') t4;
          t6 = put ''timeCompleted'' (now clk w) t5
      in put ''totalDuration'' (js_minus (fld t6 ''timeCompleted'') (fld t6 ''timeOpened'')) t6)"

text \<open>The scan of \<^verbatim>\<open>mergeTasks\<close> for one name: the first task of that name.\<close>

definition find_task :: "json \<Rightarrow> string \<Rightarrow> string list option" where
  "find_task workflow taskName =
     fst (scanAllTasks (fld workflow ''tasks'') [''tasks''] True
            (\<lambda>p task name found. if taskName = name then (Some p, False) else (found, True))
            None)"

fun mergeTasks ::
  "(nat \<Rightarrow> nat) \<Rightarrow> json \<Rightarrow> (string \<times> json) list \<Rightarrow> 's world \<Rightarrow> error + json \<times> 's world" where
  "mergeTasks clk workflow [] w = Inr (workflow, w)"
| "mergeTasks clk workflow ((t, newTask) # rest) w =
     (case find_task workflow t of
        None \<Rightarrow> mergeTasks clk workflow rest w
      | Some p \<Rightarrow>
          if newTask = JNull then Inl (TypeError ''Cannot read properties of null'')
          else mergeTasks clk (update_at p (mergeTask clk newTask w) workflow) rest (tick w))"

definition updateTasks ::
  "nat \<Rightarrow> 's engine \<Rightarrow> json \<Rightarrow> json \<Rightarrow> 's world
     \<Rightarrow> (error option \<times> json option \<times> 's world) option" where
  "updateTasks fuel cfg ident tasks w =
     (case store_loadInstance cfg ident 0 w of
        Inl err \<Rightarrow> Some (Some err, None, w)
      | Inr workflow \<Rightarrow>
          if fld workflow ''status'' \<noteq> Some (JStr ''completed'') then
            (case mergeTasks (Date_now cfg) workflow (entries (Some tasks)) w of
               Inl err \<Rightarrow> Some (Some err, None, w)
             | Inr (mergedWorkflow, w1) \<Rightarrow>
                 (case execute fuel cfg mergedWorkflow w1 of
                    None \<Rightarrow> None
                  | Some (err, inst, w2, caller) \<Rightarrow> Some (err, Some inst, w2)))
          else
            Some (Some (Error (''Update failed, workflow ['' @ js_String ident
                                 @ ''] has already completed!'')), None, w))"

text \<open>\<^verbatim>\<open>runWorkflow\<close>: a new execution without an id, an update with one.\<close>

definition runWorkflow ::
  "nat \<Rightarrow> 's engine \<Rightarrow> json option \<Rightarrow> json \<Rightarrow> 's world
     \<Rightarrow> (error option \<times> json option \<times> 's world) option" where
  "runWorkflow fuel cfg ident workflowTaskJSON w =
     (case ident of
        None \<Rightarrow> map_option (\<lambda>(err, inst, w', caller). (err, Some inst, w')) (execute fuel cfg workflowTaskJSON w)
      | Some JNull \<Rightarrow> map_option (\<lambda>(err, inst, w', caller). (err, Some inst, w')) (execute fuel cfg workflowTaskJSON w)
      | Some i \<Rightarrow> updateTasks fuel cfg i workflowTaskJSON w)"

text \<open>
  The engine on the file backend, with the handlers of the repository. How the dynamic
  import resolves a handler name is the environment's: \<open>handlers\<close> is the environment in
  which the names \<^verbatim>\<open>log\<close> and \<^verbatim>\<open>test\<close> resolve to the two modules of \<^verbatim>\<open>taskHandlers\<close> and any
  other import fails.
\<close>

definition handlers :: "string \<Rightarrow> error + handler" where
  "handlers m =
     (if m = ''log'' then Inr logHandler
      else if m = ''test'' then Inr testHandler
      else Inl (Error (''Cannot find module '' @ m)))"

definition file_engine :: "json \<Rightarrow> files engine" where
  "file_engine env =
     \<lparr>Date_now = (\<lambda>k. 1000 + k), import_module = handlers, process_env = env,
      uuidv4 = ''0000-0001'',
      store_saveInstance = file_saveInstance (\<lambda>k. 1000 + k),
      store_loadInstance = file_loadInstance\<rparr>"

definition empty_disk :: "files world" where
  "empty_disk = \<lparr>ticks = 0, invoked = [], failures = [], db = []\<rparr>"

section \<open>Instances for the concrete runs\<close>

definition taskB :: json where
  "taskB = JObj [(''status'', JStr ''waiting''), (''blocking'', JBool True),
                 (''tasks'', JObj [(''c1'', JObj [(''status'', JStr ''waiting'')]),
                                   (''c2'', JObj [(''status'', JStr ''waiting'')])])]"

definition disk_done :: "files world" where
  "disk_done = \<lparr>ticks = 0, invoked = [], failures = [],
      db = [(''w1'', JSON_stringify (JObj [(''id'', JStr ''w1''), (''status'', JStr ''completed''),
                (''tasks'', JObj [(''t1'', JObj [(''status'', JStr ''completed'')])])]))]\<rparr>"

text \<open>The invariant of the data directory between two saves of one id.\<close>

definition stamped :: "(nat \<Rightarrow> nat) \<Rightarrow> string \<Rightarrow> files world \<Rightarrow> nat \<Rightarrow> bool" where
  "stamped clk current w k \<longleftrightarrow>
     distinct (map fst (db w)) \<and> map_of (db w) current \<noteq> None
     \<and> length (history_files (db w) current) = k
     \<and> (\<forall>name \<in> set (history_files (db w) current).
           \<exists>j < ticks w. name = current @ ''_'' @ show_nat (clk j))"

section \<open>The public API: \<^verbatim>\<open>api.js\<close>\<close>

text \<open>
  \<^verbatim>\<open>api.js\<close> reaches the engine through \<^verbatim>\<open>import * as p from './processus.js'\<close>; a
  property of the namespace \<open>p\<close> is a function only for a name that \<^verbatim>\<open>processus.js\<close>
  exports, and \<^verbatim>\<open>undefined\<close> for any other. These are the exports of the module.
\<close>

definition processus_exports :: "string list" where
  "processus_exports =
     [''runWorkflow'', ''updateTasks'', ''scanAllTasks'', ''getData'', ''setConditionValues'',
      ''isBlocking'', ''getBoolean'', ''default'']"

text \<open>
  What a call of the API does: it throws to its caller, or it invokes the callback with
  \<^verbatim>\<open>(err, instance)\<close>, or the engine never comes back within the passes given.
\<close>

datatype 's outcome = Thrown error | CalledBack "error option" "json option" "'s world" | Pending

definition api_execute ::
  "nat \<Rightarrow> 's engine \<Rightarrow> json option \<Rightarrow> bool \<Rightarrow> 's world \<Rightarrow> 's outcome" where
  "api_execute fuel cfg workflow callback_is_function w =
     (if \<not> truthy workflow then
        (if callback_is_function
         then CalledBack (Some (Error ''Workflow object is required'')) None w
         else Thrown (TypeError ''callback is not a function''))
      else if \<not> callback_is_function then Thrown (Error ''Callback function is required'')
      else if ''execute'' \<in> set processus_exports then
        (case workflow of
           None \<Rightarrow> Pending
         | Some wf0 \<Rightarrow>
             (case execute fuel cfg wf0 w of
                None \<Rightarrow> Pending
              | Some (err, inst, w', caller) \<Rightarrow> CalledBack err (Some inst) w'))
      else Thrown (TypeError ''p.execute is not a function''))"

text \<open>\<^verbatim>\<open>typeof x === 'object'\<close>\<close>

fun typeof_object :: "json option \<Rightarrow> bool" where
  "typeof_object (Some (JObj kvs)) = True"
| "typeof_object (Some (JArr vs)) = True"
| "typeof_object (Some JNull) = True"
| "typeof_object _ = False"

definition api_updateWorkflow ::
  "nat \<Rightarrow> 's engine \<Rightarrow> json option \<Rightarrow> json option \<Rightarrow> bool \<Rightarrow> 's world \<Rightarrow> 's outcome" where
  "api_updateWorkflow fuel cfg workflowId tasks callback_is_function w =
     (if \<not> truthy workflowId \<or> \<not> truthy tasks \<or> \<not> typeof_object tasks then
        (if callback_is_function
         then CalledBack (Some (Error (if \<not> truthy workflowId then ''Workflow ID is required''
                                       else ''Tasks object is required''))) None w
         else Thrown (TypeError ''callback is not a function''))
      else if \<not> callback_is_function then Thrown (Error ''Callback function is required'')
      else if ''updateTasks'' \<in> set processus_exports then
        (case (workflowId, tasks) of
           (Some i, Some ts) \<Rightarrow>
             (case updateTasks fuel cfg i ts w of
                None \<Rightarrow> Pending
              | Some (err, inst, w') \<Rightarrow> CalledBack err inst w')
         | _ \<Rightarrow> Pending)
      else Thrown (TypeError ''p.updateTasks is not a function''))"

text \<open>Scenario 1 of the specification.\<close>

definition workflowA :: json where
  "workflowA =
     JObj [(''name'', JStr ''A''),
           (''tasks'', JObj [(''t1'', JObj [(''handler'', JStr ''log''),
               (''parameters'', JObj [(''log'', JStr ''hi''), (''level'', JStr ''info'')])])])]"

text \<open>The paths of the tasks of an instance begin with \<open>tasks\<close>.\<close>

definition below_tasks :: "string list \<Rightarrow> bool" where
  "below_tasks p = (take 1 p = [''tasks''])"

text \<open>
  How a run of \<^verbatim>\<open>realExecute\<close> ends: with status \<^verbatim>\<open>"error"\<close> after a failed batch, with
  status \<^verbatim>\<open>"completed"\<close> when \<^verbatim>\<open>childHasStatus\<close> holds of the instance, with status
  \<^verbatim>\<open>"open"\<close> otherwise.
\<close>

definition pass_result :: "'s world \<Rightarrow> error option \<Rightarrow> json \<Rightarrow> 's world \<Rightarrow> bool" where
  "pass_result w err inst w' \<longleftrightarrow>
     (fld inst ''status'' = Some (JStr ''error'') \<and> length (failures w) < length (failures w')
        \<and> err \<noteq> None)
     \<or> (fld inst ''status'' = Some (JStr ''completed'') \<and> failures w' = failures w
        \<and> childHasStatus inst ''completed'' True)
     \<or> (fld inst ''status'' = Some (JStr ''open'') \<and> failures w' = failures w
        \<and> (err = None \<longrightarrow> \<not> childHasStatus inst ''completed'' True))"

text \<open>Two more instances: a task whose handler reports an error, and an empty task mapping.\<close>

definition workflowF :: json where
  "workflowF =
     JObj [(''name'', JStr ''F''),
           (''tasks'', JObj [(''t1'', JObj [(''handler'', JStr ''test''),
               (''parameters'', JObj [(''error'', JBool True)])])])]"

definition workflowZ :: json where
  "workflowZ = JObj [(''name'', JStr ''Z''), (''tasks'', JObj [])]"

text \<open>The instance that \<open>disk_done\<close> holds: its only task is completed.\<close>

definition workflowDone :: json where
  "workflowDone = JObj [(''id'', JStr ''w1''), (''status'', JStr ''completed''),
       (''tasks'', JObj [(''t1'', JObj [(''status'', JStr ''completed'')])])]"

text \<open>Scenario 5 of the specification, and its environment.\<close>

definition workflowE :: json where
  "workflowE =
     JObj [(''name'', JStr ''E''),
           (''tasks'', JObj [(''t1'', JObj [(''handler'', JStr ''log''),
               (''parameters'', JObj [(''log'', JStr ''val=$[environment.HOME]'')])])])]"

definition env_home :: json where
  "env_home = JObj [(''HOME'', JStr ''/tmp'')]"

text \<open>
  The file backend with a clock that stands still: every \<^verbatim>\<open>Date.now()\<close> of the run falls
  in the same millisecond.
\<close>

definition same_ms_engine :: "files engine" where
  "same_ms_engine =
     \<lparr>Date_now = (\<lambda>k. 1000), import_module = handlers, process_env = JObj [],
      uuidv4 = ''0000-0001'',
      store_saveInstance = file_saveInstance (\<lambda>k. 1000),
      store_loadInstance = file_loadInstance\<rparr>"

text \<open>
  An instance as a resume leaves it before \<^verbatim>\<open>execute\<close>: \<^verbatim>\<open>mergeTask\<close> has given the blocking
  task \<open>t1\<close> the status \<^verbatim>\<open>"executing"\<close> that the caller sent (scenario 3 of the
  specification sends it), and the task \<open>t2\<close> after it is waiting and has no handler.
\<close>

definition workflowC_resumed :: json where
  "workflowC_resumed =
     JObj [(''id'', JStr ''c1''), (''name'', JStr ''C''), (''status'', JStr ''open''),
           (''tasks'', JObj [
              (''t1'', JObj [(''handler'', JStr ''test''),
                             (''parameters'', JObj [(''paused'', JBool False)]),
                             (''blocking'', JBool True), (''status'', JStr ''executing'')]),
              (''t2'', JObj [(''status'', JStr ''waiting'')])])]"

text \<open>
  An instance whose only task names a handler module that does not exist and asks for its
  errors to be ignored.
\<close>

definition workflowN :: json where
  "workflowN =
     JObj [(''name'', JStr ''N''),
           (''tasks'', JObj [(''t1'', JObj [(''handler'', JStr ''nope''),
                                            (''ignoreError'', JBool True)])])]"

section \<open>Properties of \<^verbatim>\<open>executeTask\<close>\<close>

lemma is_obj_put [simp]: "is_obj (put k v j) = is_obj j"
  by (cases j) simp_all

lemma fld_put_same [simp]: "is_obj j \<Longrightarrow> fld (put k v j) k = Some v"
  by (cases j) (simp_all add: AList.update_conv')

lemma fld_put_other [simp]: "k' \<noteq> k \<Longrightarrow> fld (put k v j) k' = fld j k'"
  by (cases j) (simp_all add: AList.update_conv')

lemma fld_put: "fld (put k v j) k' = (if k' = k \<and> is_obj j then Some v else fld j k')"
  by (cases j) (simp_all add: AList.update_conv')

lemma tick_simps [simp]:
  "ticks (tick w) = Suc (ticks w)" "invoked (tick w) = invoked w" "db (tick w) = db w"
  "failures (tick w) = failures w"
  by (simp_all add: tick_def)

lemma stamp_completed_fields:
  assumes "is_obj t"
  shows "is_obj (stamp_completed clk t w)"
    and "fld (stamp_completed clk t w) ''status'' = Some (JStr ''completed'')"
    and "fld (stamp_completed clk t w) ''timeCompleted'' = Some (now clk w)"
    and "fld (stamp_completed clk t w) ''handlerDuration''
           = Some (js_minus (Some (now clk w)) (fld t ''timeStarted''))"
    and "fld (stamp_completed clk t w) ''totalDuration''
           = Some (js_minus (Some (now clk w)) (fld t ''timeOpened''))"
  using assms unfolding stamp_completed_def Let_def
  by (simp_all del: put.simps)

lemma stamp_completed_other:
  "k \<notin> {''status'', ''timeCompleted'', ''handlerDuration'', ''totalDuration''} \<Longrightarrow>
     fld (stamp_completed clk t w) k = fld t k"
  unfolding stamp_completed_def Let_def
  by (simp del: put.simps)

lemma skip_condition_put [simp]:
  "k \<notin> {''skipIf'', ''errorIf'', ''handler''} \<Longrightarrow> skip_condition (put k v t) = skip_condition t"
  by (auto simp: skip_condition_def fld_put)

lemma now_simps [simp]:
  "now clk (tick w) = JNum (int (clk (Suc (ticks w))))"
  "now clk (w\<lparr>invoked := i\<rparr>) = now clk w"
  by (simp_all add: now_def tick_def)

lemma stamp_completed_invoked [simp]:
  "stamp_completed clk t (w\<lparr>invoked := i\<rparr>) = stamp_completed clk t w"
  by (simp add: stamp_completed_def)

text \<open>
  C8 (amended). A dispatched task (an object whose status is \<^verbatim>\<open>"executing"\<close>) is
  skipped, that is, its handler is not invoked and \<^verbatim>\<open>handlerExecuted\<close> is false, when
  \<^verbatim>\<open>skipIf\<close> is true, \<^verbatim>\<open>errorIf\<close> is true or \<^verbatim>\<open>handler\<close> is absent (falsy); otherwise
  the engine sets \<^verbatim>\<open>handlerExecuted\<close> to true and invokes the handler if it loads.
  A skipped task whose \<^verbatim>\<open>errorIf\<close> is not true becomes \<^verbatim>\<open>"completed"\<close> in the same call
  (so a task with \<^verbatim>\<open>skipIf\<close> true, and a task with no handler and no children, completes
  at once), while \<^verbatim>\<open>errorIf\<close> true always ends in \<^verbatim>\<open>"error"\<close>.
\<close>

theorem executeTask_skipped:
  assumes "is_obj taskObject"
    and "fld taskObject ''status'' = Some (JStr ''executing'')"
    and "executeTask clk load workflowId taskName taskObject w = (err, t', w')"
  shows "(skip_condition taskObject \<longrightarrow>
            invoked w' = invoked w \<and> fld t' ''handlerExecuted'' = Some (JBool False))
       \<and> (skip_condition taskObject \<and> fld taskObject ''errorIf'' \<noteq> Some (JBool True) \<longrightarrow>
            err = None \<and> fld t' ''status'' = Some (JStr ''completed'')
            \<and> fld t' ''timeCompleted'' \<noteq> None)
       \<and> (fld taskObject ''errorIf'' = Some (JBool True) \<longrightarrow>
            err \<noteq> None \<and> fld t' ''status'' = Some (JStr ''error''))
       \<and> (\<not> skip_condition taskObject \<longrightarrow>
            (case load (String_of (fld taskObject ''handler'')) of
               Inr h \<Rightarrow> \<exists>t1. invoked w' = invoked w @ [(taskName, t1)]
                          \<and> fld t1 ''handlerExecuted'' = Some (JBool True)
             | Inl e \<Rightarrow> invoked w' = invoked w \<and> fld t' ''status'' = Some (JStr ''error'')))"
  using assms
  by (auto simp: executeTask_def Let_def complete_def stamp_completed_fields stamp_completed_other
        import_failed_def handler_callback_def skip_condition_def [of taskObject]
      split: if_splits prod.splits sum.splits hresult.splits option.splits)

theorem executeTask_skipped_witness:
  "invoked (snd (snd (executeTask (\<lambda>k. k) (\<lambda>m. Inl (Error ''Cannot find module'')) None ''t1''
        (JObj [(''status'', JStr ''executing''), (''skipIf'', JBool True), (''handler'', JStr ''log'')])
        world0))) = []
   \<and> fld (fst (snd (executeTask (\<lambda>k. k) (\<lambda>m. Inl (Error ''Cannot find module'')) None ''t1''
        (JObj [(''status'', JStr ''executing''), (''skipIf'', JBool True), (''handler'', JStr ''log'')])
        world0))) ''status'' = Some (JStr ''completed'')"
proof -
  let ?r = "executeTask (\<lambda>k. k) (\<lambda>m. Inl (Error ''Cannot find module'')) None ''t1''
        (JObj [(''status'', JStr ''executing''), (''skipIf'', JBool True), (''handler'', JStr ''log'')])
        world0"
  have "?r = (fst ?r, fst (snd ?r), snd (snd ?r))"
    by simp
  from executeTask_skipped [OF _ _ this] show ?thesis
    by (simp add: skip_condition_def world0_def)
qed

text \<open>
  The claim as written also says that every task with no handler and no children
  completes at once. A dispatched task with neither, whose \<^verbatim>\<open>errorIf\<close> is true, ends
  in \<^verbatim>\<open>"error"\<close>.
\<close>

theorem no_handler_errorIf_counterexample:
  "fld (JObj [(''status'', JStr ''executing''), (''errorIf'', JBool True)]) ''handler'' = None
   \<and> fld (JObj [(''status'', JStr ''executing''), (''errorIf'', JBool True)]) ''tasks'' = None
   \<and> fld (fst (snd (executeTask (\<lambda>k. k) (\<lambda>m. Inl (Error ''Cannot find module'')) None ''t1''
        (JObj [(''status'', JStr ''executing''), (''errorIf'', JBool True)]) world0))) ''status''
       = Some (JStr ''error'')
   \<and> fld (fst (snd (executeTask (\<lambda>k. k) (\<lambda>m. Inl (Error ''Cannot find module'')) None ''t1''
        (JObj [(''status'', JStr ''executing''), (''errorIf'', JBool True)]) world0))) ''status''
       \<noteq> Some (JStr ''completed'')"
  by (simp add: executeTask_def skip_condition_def Let_def complete_def)



section \<open>Properties of \<^verbatim>\<open>openTasks\<close>\<close>

lemma isBlocking_put [simp]: "k \<noteq> ''blocking'' \<Longrightarrow> isBlocking (put k v t) = isBlocking t"
  by (simp add: isBlocking_def)

lemma openTasks_entries_append:
  "\<exists>bs w1. length bs = length before \<and>
     (openTasks_entries clk (before @ ys) w = (bs @ ys, w1)
      \<or> openTasks_entries clk (before @ ys) w
          = (bs @ fst (openTasks_entries clk ys w1), snd (openTasks_entries clk ys w1)))"
proof (induction before arbitrary: w)
  case Nil
  show ?case by (rule exI [of _ "[]"], rule exI [of _ w]) simp
next
  case (Cons a before)
  obtain taskName task where a: "a = (taskName, task)" by (cases a)
  show ?case
  proof (cases "is_obj task")
    case False
    from Cons.IH [of w] obtain bs w1 where bs: "length bs = length before"
      and d: "openTasks_entries clk (before @ ys) w = (bs @ ys, w1)
        \<or> openTasks_entries clk (before @ ys) w
          = (bs @ fst (openTasks_entries clk ys w1), snd (openTasks_entries clk ys w1))"
      by blast
    show ?thesis
      apply (rule exI [of _ "(taskName, task) # bs"], rule exI [of _ w1])
      using False bs d a by auto
  next
    case True
    obtain task1 c w0 where cb: "openTasks_callback clk task w = (task1, c, w0)"
      by (cases "openTasks_callback clk task w")
    show ?thesis
    proof (cases c)
      case False
      show ?thesis
        apply (rule exI [of _ "(taskName, task1) # before"], rule exI [of _ w0])
        using True cb False a by simp
    next
      case c: True
      from Cons.IH [of w0] obtain bs w1 where bs: "length bs = length before"
        and d: "openTasks_entries clk (before @ ys) w0 = (bs @ ys, w1)
          \<or> openTasks_entries clk (before @ ys) w0
            = (bs @ fst (openTasks_entries clk ys w1), snd (openTasks_entries clk ys w1))"
        by blast
      show ?thesis
        apply (rule exI [of _ "(taskName, task1) # bs"], rule exI [of _ w1])
        using True cb c bs d a by auto
    qed
  qed
qed


text \<open>
  \<^verbatim>\<open>childHasStatus(parent, status, false)\<close> holds when some task below the parent, at any
  depth, has the status.
\<close>

lemma scan_entries_any:
  "scan_entries kvs pre True
     (\<lambda>p task name (matchStatus, hasChecked).
        (let m = \<not> Q task in ((m, True), \<not> ((m \<and> \<not> False) \<or> (\<not> m \<and> False))))) (m0, h0)
   = (if every_task Q kvs then ((if has_task kvs then (False, True) else (m0, h0)), True)
      else ((True, True), False))"
proof (induction Q kvs arbitrary: pre m0 h0 rule: every_task.induct)
  case (1 Q)
  show ?case by simp
next
  case (2 Q taskName task rest)
  show ?case
  proof (cases "is_obj task")
    case False
    with 2 show ?thesis by simp
  next
    case True
    show ?thesis
    proof (cases "Q task")
      case False
      with True show ?thesis by simp
    next
      case Q: True
      show ?thesis
        using True Q "2"(1) [OF True, of "pre @ [taskName, ''tasks'']" False True]
          "2"(2) [OF True, of pre False True]
        by (simp add: Let_def)
    qed
  qed
qed

lemma childHasStatus_any:
  "childHasStatus parent status False
     = (\<not> every_task (\<lambda>t. fld t ''status'' \<noteq> Some (JStr status)) (children parent))"
proof (cases "children parent = []")
  case True
  then show ?thesis by (simp add: childHasStatus_def)
next
  case False
  then obtain kvs where t: "fld parent ''tasks'' = Some (JObj kvs)"
    unfolding children_def by (cases "fld parent ''tasks''" rule: entries.cases) auto
  then have [simp]: "entries (fld parent ''tasks'') = children parent"
    and ck: "children parent = kvs"
    by (simp_all add: children_def)
  show ?thesis
    using False t ck
    unfolding childHasStatus_def scanAllTasks_def
    by (simp add: scan_entries_any [of _ _ "\<lambda>t. fld t ''status'' \<noteq> Some (JStr status)", unfolded Let_def, simplified] Let_def)
qed

lemma every_task_nth:
  "every_task P kvs \<Longrightarrow> i < length kvs \<Longrightarrow> is_obj (snd (kvs ! i)) \<Longrightarrow> P (snd (kvs ! i))"
proof (induction P kvs arbitrary: i rule: every_task.induct)
  case (1 P)
  then show ?case by simp
next
  case (2 P taskName task rest)
  show ?case
  proof (cases i)
    case 0
    with "2.prems" show ?thesis by simp
  next
    case (Suc j)
    with "2.prems" have "every_task P rest" "j < length rest" "is_obj (snd (rest ! j))"
      by (simp_all split: if_splits)
    then have "P (snd (rest ! j))"
      by (cases "is_obj task") (simp_all add: "2.IH")
    with Suc show ?thesis by simp
  qed
qed

lemma openTasks_callback_continue:
  "\<not> isBlocking task \<Longrightarrow> fst (snd (openTasks_callback clk task w))"
  by (simp add: openTasks_callback.simps case_prod_beta)

lemma openTasks_callback_waiting:
  "is_obj task \<Longrightarrow> fld task ''status'' = Some (JStr ''waiting'') \<Longrightarrow>
     fld (fst (openTasks_callback clk task w)) ''status'' = Some (JStr ''open'')"
  by (simp add: openTasks_callback.simps case_prod_beta)

lemma openTasks_entries_opens:
  assumes "\<forall>(n, c) \<in> set kvs. \<not> isBlocking c"
  shows "map fst (fst (openTasks_entries clk kvs w)) = map fst kvs
       \<and> (\<forall>i < length kvs.
             is_obj (snd (kvs ! i)) \<and> fld (snd (kvs ! i)) ''status'' = Some (JStr ''waiting'')
             \<longrightarrow> fld (snd (fst (openTasks_entries clk kvs w) ! i)) ''status''
                   = Some (JStr ''open''))"
  using assms
proof (induction kvs arbitrary: w)
  case Nil
  show ?case by simp
next
  case (Cons kv kvs)
  obtain taskName task where kv: "kv = (taskName, task)" by (cases kv)
  from Cons.prems kv have nb: "\<not> isBlocking task" and rest: "\<forall>(n, c) \<in> set kvs. \<not> isBlocking c"
    by simp_all
  show ?case
  proof (cases "is_obj task")
    case False
    have e: "openTasks_entries clk (kv # kvs) w
               = ((taskName, task) # fst (openTasks_entries clk kvs w), snd (openTasks_entries clk kvs w))"
      using False kv by (simp add: case_prod_beta)
    show ?thesis
      unfolding e fst_conv using Cons.IH [OF rest, of w] False kv
      by (auto simp: nth_Cons split: nat.splits)
  next
    case True
    let ?r = "openTasks_callback clk task w"
    have e: "openTasks_entries clk (kv # kvs) w
               = ((taskName, fst ?r) # fst (openTasks_entries clk kvs (snd (snd ?r))),
                  snd (openTasks_entries clk kvs (snd (snd ?r))))"
      using True kv openTasks_callback_continue [OF nb, of clk w]
      by (simp add: case_prod_beta)
    show ?thesis
      unfolding e fst_conv
      using Cons.IH [OF rest, of "snd (snd ?r)"] kv openTasks_callback_waiting [OF True, of clk w]
      by (auto simp: nth_Cons split: nat.splits)
  qed
qed




section \<open>Properties of the file backend\<close>

lemma digit_char_inj: "d < 10 \<Longrightarrow> d' < 10 \<Longrightarrow> digit_char d = digit_char d' \<Longrightarrow> d = d'"
proof -
  assume a: "d < 10" "d' < 10" "digit_char d = digit_char d'"
  have "distinct ''0123456789''" by simp
  moreover have "d < length ''0123456789''" "d' < length ''0123456789''" using a by simp_all
  ultimately show ?thesis using a(3) unfolding digit_char_def
    by (simp only: nth_eq_iff_index_eq)
qed

lemma show_nat_nonempty: "show_nat n \<noteq> []"
  by (subst show_nat.simps) simp

lemma show_nat_inj: "show_nat n = show_nat m \<Longrightarrow> n = m"
proof (induction n arbitrary: m rule: show_nat.induct)
  case (1 n)
  show ?case
  proof (cases "n < 10")
    case n: True
    show ?thesis
    proof (cases "m < 10")
      case True
      with n 1(2) show ?thesis
        by (subst (asm) show_nat.simps, subst (asm) (2) show_nat.simps) (simp add: digit_char_inj)
    next
      case False
      with n 1(2) show_nat_nonempty [of "m div 10"] show ?thesis
        by (subst (asm) show_nat.simps, subst (asm) (2) show_nat.simps) simp
    qed
  next
    case n: False
    show ?thesis
    proof (cases "m < 10")
      case True
      with n 1(2) show_nat_nonempty [of "n div 10"] show ?thesis
        by (subst (asm) show_nat.simps, subst (asm) (2) show_nat.simps) simp
    next
      case False
      from n False 1(2) have e: "show_nat (n div 10) @ [digit_char (n mod 10)]
           = show_nat (m div 10) @ [digit_char (m mod 10)]"
        by (subst (asm) show_nat.simps, subst (asm) (2) show_nat.simps) simp
      then have "show_nat (n div 10) = show_nat (m div 10)" and d: "digit_char (n mod 10) = digit_char (m mod 10)"
        by simp_all
      with 1(1) [OF n] have "n div 10 = m div 10" by blast
      moreover from d have "n mod 10 = m mod 10" by (rule digit_char_inj [rotated 2]) simp_all
      ultimately show ?thesis by (metis div_mult_mod_eq)
    qed
  qed
qed


lemma not_is_history_self [simp]: "\<not> is_history current current"
  by (simp add: is_history_def)

lemma is_history_stamp [simp]: "is_history current (current @ CHR ''_'' # s)"
  by (simp add: is_history_def)

lemma history_files_update:
  "history_files (AList.update k v fs) current =
     (if k \<in> fst ` set fs \<or> \<not> is_history current k then history_files fs current
      else history_files fs current @ [k])"
  by (simp add: history_files_def update_keys)

lemma history_files_delete_current [simp]:
  "history_files (AList.delete current fs) current = history_files fs current"
  by (induction fs) (auto simp: history_files_def)

lemma map_of_delete_self [simp]: "map_of (AList.delete k fs) k = None"
  by (simp add: delete_conv')

lemma keys_iff: "k \<in> fst ` set fs \<longleftrightarrow> map_of fs k \<noteq> None"
  by (simp add: map_of_eq_None_iff)

lemma save_first:
  assumes "fld workflow ''id'' = Some (JStr current)"
    and "map_of (db w) current = None"
  shows "file_saveInstance clk workflow w
           = (None, w\<lparr>db := AList.update current (JSON_stringify workflow) (db w)\<rparr>)"
  using assms by (simp add: file_saveInstance_def fs_exists_def fs_writeFile_def)

lemma save_again:
  assumes "fld workflow ''id'' = Some (JStr current)"
    and "map_of (db w) current = Some old"
  shows "file_saveInstance clk workflow w
           = (None, (tick w)\<lparr>db := AList.update current (JSON_stringify workflow)
                 (AList.update (current @ ''_'' @ show_nat (clk (ticks w))) old
                    (AList.delete current (db w)))\<rparr>)"
  using assms
  by (simp add: file_saveInstance_def fs_exists_def fs_writeFile_def fs_rename_def Let_def tick_def)

lemma stamped_first:
  assumes "fld workflow ''id'' = Some (JStr current)"
    and "map_of (db w) current = None" and "distinct (map fst (db w))"
    and "history_files (db w) current = []"
  shows "stamped clk current (snd (file_saveInstance clk workflow w)) 0"
  using assms
  by (simp add: save_first stamped_def distinct_update history_files_update update_conv')

lemma stamped_step:
  assumes "fld workflow ''id'' = Some (JStr current)"
    and "stamped clk current w k" and "inj clk"
  shows "stamped clk current (snd (file_saveInstance clk workflow w)) (Suc k)"
proof -
  from assms(2) obtain old where old: "map_of (db w) current = Some old"
    by (auto simp: stamped_def)
  let ?h = "current @ ''_'' @ show_nat (clk (ticks w))"
  have fresh: "?h \<notin> set (history_files (db w) current)"
  proof
    assume "?h \<in> set (history_files (db w) current)"
    with assms(2) obtain j where "j < ticks w" "?h = current @ ''_'' @ show_nat (clk j)"
      by (auto simp: stamped_def)
    then have "clk (ticks w) = clk j" by (simp add: show_nat_inj)
    with assms(3) \<open>j < ticks w\<close> show False by (auto dest: injD)
  qed
  then have "?h \<notin> fst ` set (db w)"
    by (auto simp: history_files_def)
  then have nokey: "?h \<notin> fst ` set (AList.delete current (db w))"
    using dom_delete_subset [of current "db w"] by blast
  have ne: "?h \<noteq> current" by simp
  have hist: "history_files (AList.update current (JSON_stringify workflow)
                 (AList.update ?h old (AList.delete current (db w)))) current
            = history_files (db w) current @ [?h]"
    using nokey by (simp add: history_files_update)
  show ?thesis
    using assms(2) fresh
    unfolding save_again [OF assms(1) old] stamped_def snd_conv
    apply (simp add: hist distinct_update distinct_delete update_conv' del: append.simps)
    apply (auto simp: less_Suc_eq)
    done
qed

lemma stamped_save_all:
  assumes "\<forall>workflow \<in> set wfs. fld workflow ''id'' = Some (JStr current)"
    and "stamped clk current w k" and "inj clk"
  shows "stamped clk current (save_all clk wfs w) (k + length wfs)"
  using assms
proof (induction wfs arbitrary: w k)
  case Nil
  then show ?case by (simp add: save_all_def)
next
  case (Cons a wfs)
  from Cons.prems have "stamped clk current (snd (file_saveInstance clk a w)) (Suc k)"
    by (simp add: stamped_step)
  from Cons.IH [OF _ this Cons.prems(3)] Cons.prems(1) show ?case
    by (simp add: save_all_def)
qed



lemma saved_current:
  "fld workflow ''id'' = Some (JStr current) \<Longrightarrow>
     map_of (db (snd (file_saveInstance clk workflow w))) current = Some (JSON_stringify workflow)"
  by (simp add: file_saveInstance_def fs_writeFile_def Let_def update_conv')

lemma save_all_snoc:
  "save_all clk (wfs @ [workflow]) w = snd (file_saveInstance clk workflow (save_all clk wfs w))"
  by (simp add: save_all_def)

text \<open>
  C3 (amended). On the file backend every call of \<^verbatim>\<open>saveInstance\<close> for an instance
  whose id is a string writes the current record under the id; a call that finds a
  current record first moves it to the id suffixed with the time stamp, and the first
  call has nothing to move. So after the saves of \<open>N\<close> instances of one id that had no
  record before, at time stamps that differ, the directory holds exactly \<open>N - 1\<close>
  historical records of the id, and the current record is the instance saved last.
\<close>

theorem file_saveInstance_history:
  assumes "inj clk" and "distinct (map fst (db w))"
    and "map_of (db w) current = None" and "history_files (db w) current = []"
    and "fld workflow ''id'' = Some (JStr current)"
    and "\<forall>workflow' \<in> set wfs. fld workflow' ''id'' = Some (JStr current)"
  shows "length (history_files (db (save_all clk (workflow # wfs) w)) current) = length wfs
       \<and> map_of (db (save_all clk (workflow # wfs) w)) current
           = Some (JSON_stringify (last (workflow # wfs)))"
proof -
  have first: "stamped clk current (snd (file_saveInstance clk workflow w)) 0"
    using assms by (simp add: stamped_first)
  have "save_all clk (workflow # wfs) w = save_all clk wfs (snd (file_saveInstance clk workflow w))"
    by (simp add: save_all_def)
  with stamped_save_all [OF assms(6) first assms(1)]
  have "stamped clk current (save_all clk (workflow # wfs) w) (length wfs)"
    by simp
  then have count: "length (history_files (db (save_all clk (workflow # wfs) w)) current) = length wfs"
    by (simp add: stamped_def)
  have ids: "fld (last (workflow # wfs)) ''id'' = Some (JStr current)"
    using assms(5,6) by (cases wfs rule: rev_cases) auto
  have "save_all clk (workflow # wfs) w
          = snd (file_saveInstance clk (last (workflow # wfs))
                   (save_all clk (butlast (workflow # wfs)) w))"
  proof -
    have "butlast (workflow # wfs) @ [last (workflow # wfs)] = workflow # wfs"
      by (rule append_butlast_last_id) simp
    with save_all_snoc [of clk "butlast (workflow # wfs)" "last (workflow # wfs)" w]
    show ?thesis by (simp only:)
  qed
  then have "map_of (db (save_all clk (workflow # wfs) w)) current
           = Some (JSON_stringify (last (workflow # wfs)))"
    using saved_current [OF ids] by simp
  with count show ?thesis by blast
qed

theorem file_saveInstance_history_witness:
  "length (history_files (db (save_all (\<lambda>k. 1000 + k)
       [JObj [(''id'', JStr ''w1'')], JObj [(''id'', JStr ''w1'')], JObj [(''id'', JStr ''w1'')]]
       empty_disk)) ''w1'') = 2"
  using file_saveInstance_history [of "\<lambda>k. 1000 + k" empty_disk "''w1''" "JObj [(''id'', JStr ''w1'')]"
      "[JObj [(''id'', JStr ''w1'')], JObj [(''id'', JStr ''w1'')]]"]
  by (simp add: empty_disk_def history_files_def inj_def)

text \<open>
  The claim as written counts one historical record for each call: the first save of an
  instance writes none, and two saves leave one.
\<close>

theorem first_save_counterexample:
  "length (history_files (db (snd (file_saveInstance (\<lambda>k. 1000 + k) (JObj [(''id'', JStr ''w1'')])
       empty_disk))) ''w1'') = 0
   \<and> length (history_files (db (save_all (\<lambda>k. 1000 + k)
       [JObj [(''id'', JStr ''w1'')], JObj [(''id'', JStr ''w1'')]] empty_disk)) ''w1'') = 1"
  by (simp add: file_saveInstance_def save_all_def empty_disk_def history_files_def is_history_def
        fs_exists_def fs_writeFile_def fs_rename_def tick_def Let_def)

section \<open>Properties of \<^verbatim>\<open>updateTasks\<close>\<close>

text \<open>
  C7. When the instance that \<^verbatim>\<open>loadInstance(id, 0)\<close> returns has the status
  \<^verbatim>\<open>"completed"\<close>, \<^verbatim>\<open>updateTasks\<close> calls back with the error
  \<^verbatim>\<open>Update failed, workflow [id] has already completed!\<close> and no instance; nothing is
  merged, no handler runs and the store is left as it was (the world is unchanged).
\<close>

theorem updateTasks_already_completed:
  assumes "store_loadInstance cfg ident 0 w = Inr workflow"
    and "fld workflow ''status'' = Some (JStr ''completed'')"
  shows "updateTasks fuel cfg ident tasks w
           = Some (Some (Error (''Update failed, workflow ['' @ js_String ident
                                   @ ''] has already completed!'')), None, w)"
  using assms by (simp add: updateTasks_def)

theorem updateTasks_already_completed_witness:
  "updateTasks 5 (file_engine (JObj [])) (JStr ''w1'')
     (JObj [(''t1'', JObj [(''status'', JStr ''executing'')])]) disk_done
   = Some (Some (Error ''Update failed, workflow [w1] has already completed!''), None, disk_done)"
proof -
  have l: "store_loadInstance (file_engine (JObj [])) (JStr ''w1'') 0 disk_done
         = Inr (JObj [(''id'', JStr ''w1''), (''status'', JStr ''completed''),
                (''tasks'', JObj [(''t1'', JObj [(''status'', JStr ''completed'')])])])"
    by code_simp
  from updateTasks_already_completed [OF l, of 5 "JObj [(''t1'', JObj [(''status'', JStr ''executing'')])]"]
  show ?thesis by simp
qed

section \<open>Properties of the public API\<close>

text \<open>
  C1. \<^verbatim>\<open>api.execute\<close> calls \<^verbatim>\<open>p.execute(workflow, callback)\<close>, but \<^verbatim>\<open>processus.js\<close>
  declares \<^verbatim>\<open>execute\<close> without exporting it, so the call throws a \<^verbatim>\<open>TypeError\<close> to the
  caller of the API for the workflow of scenario 1 and a callback that is a function:
  the engine is not invoked and the callback never receives an instance.
\<close>

theorem api_execute_throws:
  "api_execute fuel cfg (Some workflowA) True w = Thrown (TypeError ''p.execute is not a function'')"
  by (simp add: api_execute_def processus_exports_def workflowA_def)

section \<open>Properties of the scans and of a pass\<close>

lemma scan_entries_idle:
  "every_task (\<lambda>t. \<forall>p n. callback p t n s = (s, True)) kvs \<Longrightarrow>
     scan_entries kvs pre deep callback s = (s, True)"
proof (induction kvs pre deep callback s rule: scan_entries.induct)
  case (1 pre deep callback s)
  show ?case by simp
next
  case (2 taskName task rest pre deep callback s)
  show ?case
  proof (cases "is_obj task")
    case False
    with 2 show ?thesis by simp
  next
    case True
    with "2.prems" have cb: "callback (pre @ [taskName]) task taskName s = (s, True)"
      and ch: "every_task (\<lambda>t. \<forall>p n. callback p t n s = (s, True)) (children task)"
      and rs: "every_task (\<lambda>t. \<forall>p n. callback p t n s = (s, True)) rest"
      by simp_all
    have c: "deep \<Longrightarrow> scan_entries (children task) (pre @ [taskName, ''tasks'']) True callback s = (s, True)"
      using "2.IH"(2) [OF _ cb [symmetric]] True ch by simp
    have "(if deep then scan_entries (children task) (pre @ [taskName, ''tasks'']) True callback s
           else (s, True)) = (s, True)"
      using c by simp
    moreover from this have "scan_entries rest pre deep callback s = (s, True)"
      using "2.IH"(3) [OF _ cb [symmetric] _ _ ] True rs by simp
    ultimately show ?thesis using True cb by simp
  qed
qed

lemma every_task_mono:
  "every_task P kvs \<Longrightarrow> (\<And>t. P t \<Longrightarrow> Q t) \<Longrightarrow> every_task Q kvs"
  by (induction P kvs rule: every_task.induct) (auto split: if_splits)

lemma scan_entries_all:
  "scan_entries kvs pre True
     (\<lambda>p task name (matchStatus, hasChecked).
        (let m = P task in ((m, True), \<not> ((m \<and> \<not> True) \<or> (\<not> m \<and> True))))) (m0, h0)
   = (if every_task P kvs then ((if has_task kvs then (True, True) else (m0, h0)), True)
      else ((False, True), False))"
proof (induction P kvs arbitrary: pre m0 h0 rule: every_task.induct)
  case (1 P)
  show ?case by simp
next
  case (2 P taskName task rest)
  show ?case
  proof (cases "is_obj task")
    case False
    with 2 show ?thesis by simp
  next
    case True
    show ?thesis
    proof (cases "P task")
      case False
      with True show ?thesis by simp
    next
      case P: True
      show ?thesis
        using True P "2"(1) [OF True, of "pre @ [taskName, ''tasks'']" True True]
          "2"(2) [OF True, of pre True True]
        by (simp add: Let_def)
    qed
  qed
qed

lemma childHasStatus_all:
  "childHasStatus parent status True
     = (has_task (children parent)
        \<and> every_task (\<lambda>t. fld t ''status'' = Some (JStr status)) (children parent))"
proof (cases "children parent = []")
  case True
  then show ?thesis by (simp add: childHasStatus_def)
next
  case False
  then obtain kvs where t: "fld parent ''tasks'' = Some (JObj kvs)"
    unfolding children_def by (cases "fld parent ''tasks''" rule: entries.cases) auto
  then have [simp]: "entries (fld parent ''tasks'') = children parent"
    and ck: "children parent = kvs"
    by (simp_all add: children_def)
  show ?thesis
    using False t ck
    unfolding childHasStatus_def scanAllTasks_def
    by (simp add: scan_entries_all [of _ _ "\<lambda>t. fld t ''status'' = Some (JStr status)", unfolded Let_def, simplified] Let_def)
qed


lemma getTasksByStatus_empty:
  assumes "every_task (\<lambda>t. fld t ''status'' \<noteq> Some (JStr status)) (children parent)"
  shows "getTasksByStatus parent status deep = []"
  unfolding getTasksByStatus_def scanAllTasks_def
  by (subst scan_entries_idle)
     (use assms in \<open>auto elim!: every_task_mono simp: children_def\<close>)

lemma no_paused_if_all_completed:
  "childHasStatus parent ''completed'' True \<Longrightarrow> getTasksByStatus parent ''paused'' True = []"
  by (rule getTasksByStatus_empty, unfold childHasStatus_all, elim conjE, erule every_task_mono) simp

lemma no_open_if_all_completed:
  "childHasStatus parent ''completed'' True \<Longrightarrow> getTasksByStatus parent ''open'' True = []"
  by (rule getTasksByStatus_empty, unfold childHasStatus_all, elim conjE, erule every_task_mono) simp

lemma below_tasks_append [simp]: "below_tasks p \<Longrightarrow> below_tasks (p @ q)"
  by (cases p) (simp_all add: below_tasks_def)

lemma scan_entries_invariant:
  assumes "I s" and "below_tasks pre"
    and "\<forall>p t n s'. I s' \<longrightarrow> below_tasks p \<longrightarrow> I (fst (callback p t n s'))"
  shows "I (fst (scan_entries kvs pre deep callback s))"
  using assms
proof (induction kvs pre deep callback s rule: scan_entries.induct)
  case (1 pre deep callback s)
  then show ?case by simp
next
  case (2 taskName task rest pre deep callback s)
  show ?case
  proof (cases "is_obj task")
    case False
    with 2 show ?thesis by simp
  next
    case True
    obtain s1 c where cb: "callback (pre @ [taskName]) task taskName s = (s1, c)"
      by (cases "callback (pre @ [taskName]) task taskName s")
    have "I (fst (callback (pre @ [taskName]) task taskName s))"
      using "2.prems" by simp
    then have s1: "I s1"
      unfolding cb fst_conv .
    show ?thesis
    proof (cases c)
      case False
      with True cb s1 show ?thesis by simp
    next
      case c: True
      obtain s2 c2 where ch: "(if deep
                      then scan_entries (children task) (pre @ [taskName, ''tasks'']) True callback s1
                      else (s1, True)) = (s2, c2)"
        by (cases "if deep
                      then scan_entries (children task) (pre @ [taskName, ''tasks'']) True callback s1
                      else (s1, True)")
      have s2: "I s2"
      proof (cases deep)
        case False
        with ch s1 show ?thesis by simp
      next
        case d: True
        from "2.IH"(2) [OF _ cb [symmetric] _ d s1] True c "2.prems"(2,3)
        have "I (fst (scan_entries (children task) (pre @ [taskName, ''tasks'']) True callback s1))"
          by simp
        with ch d show ?thesis by simp
      qed
      show ?thesis
      proof (cases c2)
        case False
        with True cb c ch s2 show ?thesis by simp
      next
        case c2: True
        from "2.IH"(3) [OF _ cb [symmetric] _ ch [symmetric] _ s2 "2.prems"(2,3)] True c c2
        have "I (fst (scan_entries rest pre deep callback s2))" by simp
        with True cb c ch c2 show ?thesis by simp
      qed
    qed
  qed
qed

lemma set_update_subset: "set (AList.update k v al) \<subseteq> insert (k, v) (set al)"
  by (induction al) auto

lemma getTasksByStatus_below:
  "\<forall>(n, p) \<in> set (getTasksByStatus parent status deep). below_tasks p"
  unfolding getTasksByStatus_def scanAllTasks_def
proof (rule scan_entries_invariant [where I = "\<lambda>acc. \<forall>(n, p) \<in> set acc. below_tasks p"], goal_cases)
  case 1
  show ?case by simp
next
  case 2
  show ?case by (simp add: below_tasks_def)
next
  case 3
  show ?case
  proof (intro allI impI)
    fix p :: "string list" and t :: json and n :: string and s' :: "(string \<times> string list) list"
    assume a: "\<forall>(n, p)\<in>set s'. below_tasks p" and b: "below_tasks p"
    have "set (AList.update n p s') \<subseteq> insert (n, p) (set s')"
      by (rule set_update_subset)
    with a b show "\<forall>(n, p) \<in> set (fst (if fld t ''status'' = Some (JStr status)
                     then AList.update n p s' else s', True)). below_tasks p"
      by auto
  qed
qed


lemma fld_update_at_below:
  "below_tasks p \<Longrightarrow> k \<noteq> ''tasks'' \<Longrightarrow> fld (update_at p f j) k = fld j k"
  by (cases p) (auto simp: below_tasks_def split: option.splits)

lemma fld_set_property:
  "below_tasks p \<Longrightarrow> k \<noteq> ''tasks'' \<Longrightarrow> fld (set_property p workflow propKey) k = fld workflow k"
  by (simp add: set_property_def Let_def fld_update_at_below split: option.splits)

lemma fld_foldl_set_property:
  "below_tasks p \<Longrightarrow> k \<noteq> ''tasks'' \<Longrightarrow> fld (foldl (set_property p) workflow ks) k = fld workflow k"
  by (induction ks arbitrary: workflow) (simp_all add: fld_set_property)

lemma fld_setTaskDataValues:
  "below_tasks p \<Longrightarrow> k \<noteq> ''tasks'' \<Longrightarrow> fld (setTaskDataValues workflow p) k = fld workflow k"
  by (simp add: setTaskDataValues_def fld_foldl_set_property split: option.splits json.splits)

lemma fld_make_ready:
  "below_tasks p \<Longrightarrow> k \<noteq> ''tasks'' \<Longrightarrow> fld (make_ready p workflow) k = fld workflow k"
  by (simp add: make_ready_def fld_update_at_below fld_setTaskDataValues)

lemma fld_enqueue:
  "\<forall>(n, p) \<in> set queue. below_tasks p \<Longrightarrow> k \<noteq> ''tasks'' \<Longrightarrow>
     fld (fst (enqueue workflow queue)) k = fld workflow k"
  by (induction workflow queue rule: enqueue.induct)
     (auto simp: fld_make_ready split: option.splits prod.splits)

lemma enqueue_below:
  "\<forall>(n, p) \<in> set queue. below_tasks p \<Longrightarrow>
     \<forall>(n, p) \<in> set (snd (enqueue workflow queue)). below_tasks p"
  by (induction workflow queue rule: enqueue.induct)
     (auto split: option.splits prod.splits)

lemma enqueue_empty:
  "snd (enqueue workflow queue) = [] \<Longrightarrow> fst (enqueue workflow queue) = workflow"
  by (induction workflow queue rule: enqueue.induct)
     (auto split: option.splits prod.splits if_splits)

lemma fld_parallel:
  "\<forall>(n, p) \<in> set queue. below_tasks p \<Longrightarrow> k \<noteq> ''tasks'' \<Longrightarrow>
     fld (fst (snd (parallel cfg workflow queue w))) k = fld workflow k"
proof (induction cfg workflow queue w rule: parallel.induct)
  case (1 cfg workflow w)
  show ?case by simp
next
  case (2 cfg workflow taskName p rest w)
  from "2.prems"(1) have p: "below_tasks p" and rest: "\<forall>(n, p) \<in> set rest. below_tasks p"
    by simp_all
  show ?case
  proof (cases "get_at workflow p")
    case None
    with "2.IH"(1) rest "2.prems"(2) show ?thesis by simp
  next
    case (Some taskObject)
    obtain e t' w1 where ex: "executeTask (Date_now cfg) (import_module cfg) (fld workflow ''id'')
                  taskName taskObject w = (e, t', w1)"
      by (cases "executeTask (Date_now cfg) (import_module cfg) (fld workflow ''id'')
                  taskName taskObject w")
    let ?w1 = "(case e of Some x \<Rightarrow> w1\<lparr>failures := failures w1 @ [taskName]\<rparr> | None \<Rightarrow> w1)"
    from "2.IH"(2) [OF Some ex [symmetric] refl rest "2.prems"(2)]
    have "fld (fst (snd (parallel cfg (update_at p (\<lambda>_. t') workflow) rest ?w1))) k
            = fld (update_at p (\<lambda>_. t') workflow) k" .
    also have "\<dots> = fld workflow k"
      using p "2.prems"(2) by (rule fld_update_at_below)
    finally show ?thesis
      using Some ex by (simp add: case_prod_beta)
  qed
qed

lemma fld_openNextAvailableTask:
  "k \<noteq> ''tasks'' \<Longrightarrow> fld (fst (openNextAvailableTask clk workflow w)) k = fld workflow k"
  by (auto simp: openNextAvailableTask_def split: option.splits prod.splits)

lemma childHasStatus_cong:
  "fld a ''tasks'' = fld b ''tasks'' \<Longrightarrow> childHasStatus a status all = childHasStatus b status all"
  by (simp add: childHasStatus_def children_def)

lemma failures_complete [simp]: "failures (snd (complete clk t w)) = failures w"
  by (simp add: complete_def)

lemma failures_executeTask [simp]:
  "failures (snd (snd (executeTask clk load workflowId taskName taskObject w))) = failures w"
  by (simp add: executeTask_def Let_def import_failed_def handler_callback_def case_prod_beta
      split: sum.splits hresult.splits option.splits)

lemma failures_openTasks:
  "failures (snd (openTasks_entries clk kvs (w :: 's world))) = failures w"
  "failures (snd (snd (openTasks_callback clk task (w :: 's world)))) = failures w"
proof (induction clk kvs w and clk task w rule: openTasks_entries_openTasks_callback.induct)
  case (1 clk w)
  show ?case by simp
next
  case (2 clk taskName task rest w)
  show ?case
  proof (cases "is_obj task")
    case False
    obtain rest' w' where r: "openTasks_entries clk rest w = (rest', w')"
      by (cases "openTasks_entries clk rest w")
    with 2(1) [OF False] False show ?thesis by simp
  next
    case True
    obtain task1 c w1 where cb: "openTasks_callback clk task w = (task1, c, w1)"
      by (cases "openTasks_callback clk task w")
    with 2(2) [OF _] True have w1: "failures w1 = failures w" by simp
    show ?thesis
    proof (cases c)
      case False
      with True cb w1 show ?thesis by simp
    next
      case c: True
      from 2(3) [OF _ cb [symmetric] refl] True c have "failures (snd (openTasks_entries clk rest w1)) = failures w1"
        by simp
      with True cb c w1 show ?thesis by (simp add: case_prod_beta)
    qed
  qed
next
  case (3 clk task w)
  show ?case
    using 3
    by (subst openTasks_callback.simps) (simp add: case_prod_beta)
qed

lemma failures_openNextAvailableTask [simp]:
  "failures (snd (openNextAvailableTask clk workflow w)) = failures w"
  by (auto simp: openNextAvailableTask_def openTasks_def failures_openTasks(1) case_prod_beta
      split: option.splits json.splits)

lemma parallel_failures:
  "parallel cfg workflow queue w = (err, wf', w') \<Longrightarrow>
     (err = None \<longrightarrow> failures w' = failures w)
     \<and> (err \<noteq> None \<longrightarrow> length (failures w) < length (failures w'))
     \<and> length (failures w) \<le> length (failures w')"
proof (induction cfg workflow queue w arbitrary: err wf' w' rule: parallel.induct)
  case (1 cfg workflow w)
  then show ?case by simp
next
  case (2 cfg workflow taskName p rest w)
  show ?case
  proof (cases "get_at workflow p")
    case None
    with 2 show ?thesis by simp
  next
    case (Some taskObject)
    obtain e t' w1 where ex: "executeTask (Date_now cfg) (import_module cfg) (fld workflow ''id'')
                  taskName taskObject w = (e, t', w1)"
      by (cases "executeTask (Date_now cfg) (import_module cfg) (fld workflow ''id'')
                  taskName taskObject w")
    have f1: "failures w1 = failures w"
      using failures_executeTask [of "Date_now cfg" "import_module cfg" "fld workflow ''id''"
          taskName taskObject w] ex by simp
    let ?w1 = "(case e of Some x \<Rightarrow> w1\<lparr>failures := failures w1 @ [taskName]\<rparr> | None \<Rightarrow> w1)"
    obtain e2 wf2 w2 where pr: "parallel cfg (update_at p (\<lambda>_. t') workflow) rest ?w1 = (e2, wf2, w2)"
      by (cases "parallel cfg (update_at p (\<lambda>_. t') workflow) rest ?w1")
    from "2.IH"(2) [OF Some ex [symmetric] refl pr]
    have ih: "(e2 = None \<longrightarrow> failures w2 = failures ?w1)
     \<and> (e2 \<noteq> None \<longrightarrow> length (failures ?w1) < length (failures w2))
     \<and> length (failures ?w1) \<le> length (failures w2)" .
    from "2.prems" Some ex pr have res: "err = (case e of Some x \<Rightarrow> Some x | None \<Rightarrow> e2)" "w' = w2"
      by simp_all
    show ?thesis
      using ih f1 res by (cases e) auto
  qed
qed

section \<open>Properties of \<^verbatim>\<open>execute\<close>\<close>

lemma fld_status_is_obj: "fld j k = Some v \<Longrightarrow> is_obj j"
  by (cases j) simp_all

lemma realExecute_status:
  assumes frame: "\<forall>inst v. failures (snd (store_saveInstance cfg inst v)) = failures v"
  shows "realExecute n cfg workflow w = Some (err, inst, w') \<Longrightarrow>
         fld workflow ''status'' = Some (JStr ''open'') \<Longrightarrow> pass_result w err inst w'"
proof (induction n arbitrary: workflow w)
  case 0
  then show ?case by simp
next
  case (Suc n)
  note run = Suc.prems(1) and st = Suc.prems(2)
  obtain e1 w1 where sa: "store_saveInstance cfg workflow w = (e1, w1)"
    by (cases "store_saveInstance cfg workflow w")
  have f1: "failures w1 = failures w"
    using frame [rule_format, of workflow w] sa by simp
  show ?case
  proof (cases e1)
    case (Some e)
    with run sa have "err = Some e" "inst = workflow" "w' = w1" by simp_all
    with st f1 show ?thesis by (simp add: pass_result_def)
  next
    case None
    show ?thesis
    proof (cases "getTasksByStatus workflow ''paused'' True \<noteq> []")
      case True
      with run sa None have r: "err = None" "inst = workflow" "w' = w1" by simp_all
      from True have "\<not> childHasStatus workflow ''completed'' True"
        using no_paused_if_all_completed by blast
      with r st f1 show ?thesis by (simp add: pass_result_def)
    next
      case False
      obtain wf2 w2 where on: "openNextAvailableTask (Date_now cfg) workflow w1 = (wf2, w2)"
        by (cases "openNextAvailableTask (Date_now cfg) workflow w1")
      have st2: "fld wf2 ''status'' = Some (JStr ''open'')"
        using fld_openNextAvailableTask [of "''status''" "Date_now cfg" workflow w1] on st by simp
      have f2: "failures w2 = failures w"
        using failures_openNextAvailableTask [of "Date_now cfg" workflow w1] on f1 by simp
      obtain wf3 queue where en: "enqueue wf2 (getTasksByStatus wf2 ''open'' True) = (wf3, queue)"
        by (cases "enqueue wf2 (getTasksByStatus wf2 ''open'' True)")
      have st3: "fld wf3 ''status'' = Some (JStr ''open'')"
        using fld_enqueue [OF getTasksByStatus_below, of "''status''" wf2 wf2 "''open''" True] en st2
        by simp
      have qb: "\<forall>(n, p) \<in> set queue. below_tasks p"
        using enqueue_below [OF getTasksByStatus_below, of wf2 wf2 "''open''" True] en by simp
      show ?thesis
      proof (cases "queue = []")
        case True
        with enqueue_empty [of wf2 "getTasksByStatus wf2 ''open'' True"] en have wf3: "wf3 = wf2"
          by simp
        let ?wf4 = "if childHasStatus wf3 ''completed'' True
                    then put ''status'' (JStr ''completed'') wf3 else wf3"
        obtain e5 w5 where sc: "store_saveInstance cfg ?wf4 w2 = (e5, w5)"
          by (cases "store_saveInstance cfg ?wf4 w2")
        have f5: "failures w5 = failures w"
          using frame [rule_format, of ?wf4 w2] sc f2 by simp
        from run sa None False on en True sc
        have r: "err = e5" "inst = ?wf4" "w' = w5"
          by (simp_all add: Let_def)
        show ?thesis
        proof (cases "childHasStatus wf3 ''completed'' True")
          case c: True
          have "childHasStatus (put ''status'' (JStr ''completed'') wf3) ''completed'' True"
            using c by (simp add: childHasStatus_cong [of "put ''status'' (JStr ''completed'') wf3" wf3])
          moreover have "fld (put ''status'' (JStr ''completed'') wf3) ''status'' = Some (JStr ''completed'')"
            using fld_status_is_obj [OF st3] by simp
          ultimately show ?thesis using r c f5 by (simp add: pass_result_def)
        next
          case c: False
          with r st3 f5 show ?thesis by (simp add: pass_result_def)
        qed
      next
        case ne: False
        obtain pe wf4 w4 where pa: "parallel cfg wf3 queue w2 = (pe, wf4, w4)"
          by (cases "parallel cfg wf3 queue w2")
        have st4: "fld wf4 ''status'' = Some (JStr ''open'')"
          using fld_parallel [OF qb, of "''status''" cfg wf3 w2] pa st3 by simp
        note pf = parallel_failures [OF pa]
        show ?thesis
        proof (cases pe)
          case n: None
          with run sa None False on en ne pa
          have rec: "realExecute n cfg wf4 w4 = Some (err, inst, w')"
            by simp
          from Suc.IH [OF rec st4] have "pass_result w4 err inst w'" .
          moreover from pf n f2 have "failures w4 = failures w" by simp
          ultimately show ?thesis by (simp add: pass_result_def)
        next
          case (Some error)
          let ?wf5 = "put ''status'' (JStr ''error'') wf4"
          obtain e5 w5 where sb: "store_saveInstance cfg ?wf5 w4 = (e5, w5)"
            by (cases "store_saveInstance cfg ?wf5 w4")
          have f5: "failures w5 = failures w4"
            using frame [rule_format, of ?wf5 w4] sb by simp
          from run sa None False on en ne pa Some sb
          have r: "err \<noteq> None" "inst = ?wf5" "w' = w5"
            by (auto split: option.splits)
          have "fld ?wf5 ''status'' = Some (JStr ''error'')"
            using fld_status_is_obj [OF st4] by simp
          moreover from pf Some f2 f5 have "length (failures w) < length (failures w5)" by simp
          ultimately show ?thesis using r by (simp add: pass_result_def)
        qed
      qed
    qed
  qed
qed


lemma fld_update_at_other:
  "p \<noteq> [] \<Longrightarrow> hd p \<noteq> k \<Longrightarrow> fld (update_at p f j) k = fld j k"
  by (cases p) (auto split: option.splits)

lemma fld_set_property_other:
  "p \<noteq> [] \<Longrightarrow> hd p \<noteq> k \<Longrightarrow> fld (set_property p workflow propKey) k = fld workflow k"
  by (simp add: set_property_def Let_def fld_update_at_other split: option.splits)

lemma fld_foldl_set_property_other:
  "p \<noteq> [] \<Longrightarrow> hd p \<noteq> k \<Longrightarrow> fld (foldl (set_property p) workflow ks) k = fld workflow k"
  by (induction ks arbitrary: workflow) (simp_all add: fld_set_property_other)

lemma fld_setTaskDataValues_other:
  "p \<noteq> [] \<Longrightarrow> hd p \<noteq> k \<Longrightarrow> fld (setTaskDataValues workflow p) k = fld workflow k"
  by (simp add: setTaskDataValues_def fld_foldl_set_property_other split: option.splits json.splits)

lemma executePrePost_frame:
  assumes "executePrePost cfg workflow taskName w = (err, inst, w')" and "k \<noteq> taskName"
  shows "fld inst k = fld workflow k" and "failures w' = failures w"
proof -
  let ?wf1 = "update_at [taskName] setConditionValues (setTaskDataValues workflow [taskName])"
  let ?wf2 = "update_at [taskName]
                        (\<lambda>t. put ''timeOpened'' (now (Date_now cfg) w)
                                (put ''status'' (JStr ''executing'') t)) ?wf1"
  have ne: "[taskName] \<noteq> []" "hd [taskName] \<noteq> k"
    using assms(2) by simp_all
  have k2: "fld ?wf2 k = fld workflow k"
    by (simp only: fld_update_at_other [OF ne] fld_setTaskDataValues_other [OF ne])
  have "fld inst k = fld workflow k \<and> failures w' = failures w"
  proof (cases "truthy (fld workflow taskName) \<and> is_object (fld workflow taskName)")
    case False
    with assms(1) show ?thesis
      by (auto simp: executePrePost_def split: if_splits)
  next
    case True
    show ?thesis
    proof (cases "get_at ?wf2 [taskName]")
      case None
      with True assms(1) have "inst = ?wf2" "w' = tick w"
        by (simp_all add: executePrePost_def Let_def)
      with k2 show ?thesis by simp
    next
      case (Some task)
      obtain e t' w1 where ex: "executeTask (Date_now cfg) (import_module cfg) (fld ?wf2 ''id'')
                           taskName task (tick w) = (e, t', w1)"
        by (cases "executeTask (Date_now cfg) (import_module cfg) (fld ?wf2 ''id'')
                           taskName task (tick w)")
      have "failures w1 = failures (tick w)"
        using failures_executeTask [of "Date_now cfg" "import_module cfg" "fld ?wf2 ''id''"
            taskName task "tick w"] unfolding ex snd_conv .
      then have "failures w1 = failures w" by simp
      moreover from True assms(1) Some ex
      have "inst = update_at [taskName] (\<lambda>_. t') ?wf2" "w' = w1"
        by (simp_all add: executePrePost_def Let_def)
      ultimately show ?thesis
        using k2 by (simp only: fld_update_at_other [OF ne])
    qed
  qed
  then show "fld inst k = fld workflow k" and "failures w' = failures w"
    by simp_all
qed

lemma is_obj_clone [simp]: "is_obj (clone j) = is_obj j"
  by (cases j) simp_all

lemma setTaskStatusWaiting_status:
  assumes "is_obj workflow"
  shows "fld (setTaskStatusWaiting workflow) ''status'' = Some (JStr ''open'')"
proof -
  let ?wf1 = "put ''status'' (JStr ''open'') workflow"
  have s1: "fld ?wf1 ''status'' = Some (JStr ''open'')"
    using assms by simp
  have "fld (fst (scan_entries (entries (fld ?wf1 ''tasks'')) [''tasks''] True
                     (\<lambda>p task name inst.
                        (if \<not> truthy (fld task ''status'')
                         then update_at p (put ''status'' (JStr ''waiting'')) inst else inst, True))
                     ?wf1)) ''status'' = Some (JStr ''open'')"
    by (rule scan_entries_invariant [where I = "\<lambda>inst. fld inst ''status'' = Some (JStr ''open'')"])
       (use s1 in \<open>auto simp: below_tasks_def fld_update_at_below\<close>)
  then show ?thesis
    using s1 by (simp add: setTaskStatusWaiting_def Let_def scanAllTasks_def)
qed

lemma validateWorkflow_status:
  "is_obj workflow \<Longrightarrow> fld (validateWorkflow cfg workflow) ''status'' = Some (JStr ''open'')"
  by (simp add: validateWorkflow_def Let_def setTaskStatusWaiting_status)

lemma failures_file_saveInstance:
  "failures (snd (file_saveInstance clk inst w)) = failures w"
  by (simp add: file_saveInstance_def Let_def split: option.splits json.splits)

text \<open>
  The log \<open>failures\<close> grows in a batch exactly when the batch calls back with an error, and
  \<^verbatim>\<open>executeTask\<close> reports an error for a task exactly in three cases: the task is skipped
  and its \<^verbatim>\<open>errorIf\<close> is true; the task is not skipped and its handler module fails to load,
  or the handler throws; the handler calls back with an error and the task it hands back
  does not have \<^verbatim>\<open>ignoreError === true\<close>.
\<close>

lemma parallel_reports:
  "(failures (snd (snd (parallel cfg workflow queue w))) \<noteq> failures w)
     = (fst (parallel cfg workflow queue w) \<noteq> None)"
proof -
  obtain err wf' w' where p: "parallel cfg workflow queue w = (err, wf', w')"
    by (cases "parallel cfg workflow queue w")
  from parallel_failures [OF p] show ?thesis
    unfolding p by auto
qed

lemma executeTask_reports:
  "(fst (executeTask clk load workflowId taskName taskObject w) \<noteq> None)
     = (if skip_condition taskObject then fld taskObject ''errorIf'' = Some (JBool True)
        else (case load (String_of (fld taskObject ''handler'')) of
                Inl requireError \<Rightarrow> True
              | Inr h \<Rightarrow>
                  (case h workflowId taskName
                          (put ''handlerExecuted'' (JBool True)
                             (put ''timeStarted'' (now clk w) taskObject)) of
                     Throws e t \<Rightarrow> True
                   | Callback e returnedTask \<Rightarrow>
                       e \<noteq> None \<and> fld returnedTask ''ignoreError'' \<noteq> Some (JBool True))))"
proof (cases "skip_condition taskObject")
  case True
  then show ?thesis
    by (simp add: executeTask_def Let_def case_prod_beta)
next
  case False
  show ?thesis
  proof (cases "load (String_of (fld taskObject ''handler''))")
    case (Inl requireError)
    with False show ?thesis
      by (simp add: executeTask_def Let_def import_failed_def)
  next
    case (Inr h)
    show ?thesis
    proof (cases "h workflowId taskName
                    (put ''handlerExecuted'' (JBool True)
                       (put ''timeStarted'' (now clk w) taskObject))")
      case (Throws e t)
      with False Inr show ?thesis
        by (simp add: executeTask_def Let_def import_failed_def)
    next
      case (Callback e returnedTask)
      with False Inr show ?thesis
        by (cases e) (simp_all add: executeTask_def Let_def handler_callback_def case_prod_beta)
    qed
  qed
qed




section \<open>An instance whose tasks are all completed\<close>

lemma fld_clone: "fld (clone j) k = map_option clone (fld j k)"
proof (cases j)
  case (JObj kvs)
  have "map_of (map (\<lambda>kv. (fst kv, clone (snd kv))) kvs) k = map_option clone (map_of kvs k)"
    by (induction kvs) simp_all
  with JObj show ?thesis by simp
qed simp_all

lemma truthy_clone [simp]: "truthy (map_option clone x) = truthy x"
proof (cases x)
  case (Some v)
  then show ?thesis by (cases v) simp_all
qed simp

lemma entries_clone:
  "entries (map_option clone x) = map (\<lambda>kv. (fst kv, clone (snd kv))) (entries x)"
proof (cases x)
  case (Some v)
  then show ?thesis by (cases v) simp_all
qed simp

lemma children_clone:
  "children (clone task) = map (\<lambda>kv. (fst kv, clone (snd kv))) (children task)"
  by (simp add: children_def fld_clone entries_clone)

lemma has_task_clone:
  "has_task (map (\<lambda>kv. (fst kv, clone (snd kv))) kvs) = has_task kvs"
  by (induction kvs rule: has_task.induct) simp_all

lemma every_task_clone:
  "\<forall>t. P (clone t) = P t \<Longrightarrow>
     every_task P (map (\<lambda>kv. (fst kv, clone (snd kv))) kvs) = every_task P kvs"
  by (induction P kvs rule: every_task.induct) (simp_all add: children_clone)

lemma status_clone:
  "(fld (clone t) ''status'' = Some (JStr s)) = (fld t ''status'' = Some (JStr s))"
proof -
  have "(clone v = JStr s) = (v = JStr s)" for v
    by (cases v) simp_all
  then show ?thesis
    by (cases "fld t ''status''") (simp_all add: fld_clone)
qed

lemma childHasStatus_clone:
  "childHasStatus (clone parent) status True = childHasStatus parent status True"
  by (simp add: childHasStatus_all children_clone has_task_clone every_task_clone status_clone)

lemma put_same: "fld j k = Some v \<Longrightarrow> put k v j = j"
  by (cases j) (simp_all add: update_triv)

lemma has_task_is_obj: "has_task (children parent) \<Longrightarrow> is_obj parent"
  by (cases parent) (simp_all add: children_def)

lemma has_task_tasks:
  "has_task (children parent) \<Longrightarrow> fld parent ''tasks'' = Some (JObj (children parent))"
proof -
  assume h: "has_task (children parent)"
  show ?thesis
  proof (cases "fld parent ''tasks''")
    case None
    with h show ?thesis by (simp add: children_def)
  next
    case (Some v)
    with h show ?thesis by (cases v) (simp_all add: children_def)
  qed
qed

lemma openTasks_entries_idle:
  "every_task (\<lambda>t. fld t ''status'' = Some (JStr ''completed'')) kvs \<Longrightarrow>
     openTasks_entries clk kvs w = (kvs, w)"
proof (induction kvs)
  case Nil
  show ?case by simp
next
  case (Cons kv kvs)
  obtain taskName task where kv: "kv = (taskName, task)" by (cases kv)
  from Cons.prems kv have rest: "every_task (\<lambda>t. fld t ''status'' = Some (JStr ''completed'')) kvs"
    by (simp split: if_splits)
  show ?case
  proof (cases "is_obj task")
    case False
    with Cons.IH [OF rest] kv show ?thesis by simp
  next
    case True
    with Cons.prems kv have "fld task ''status'' = Some (JStr ''completed'')" by simp
    then have "openTasks_callback clk task w = (task, True, w)"
      by (simp add: openTasks_callback.simps)
    with Cons.IH [OF rest] kv True show ?thesis by simp
  qed
qed

lemma openNextAvailableTask_idle:
  assumes "childHasStatus workflow ''completed'' True"
  shows "openNextAvailableTask clk workflow w = (workflow, w)"
proof -
  from assms have h: "has_task (children workflow)"
    and e: "every_task (\<lambda>t. fld t ''status'' = Some (JStr ''completed'')) (children workflow)"
    by (simp_all add: childHasStatus_all)
  note t = has_task_tasks [OF h]
  show ?thesis
    by (simp add: openNextAvailableTask_def openTasks_def t openTasks_entries_idle [OF e]
        put_same [OF t])
qed

lemma setTaskStatusWaiting_idle:
  assumes "childHasStatus workflow ''completed'' True"
  shows "setTaskStatusWaiting workflow = put ''status'' (JStr ''open'') workflow"
proof -
  from assms have h: "has_task (children workflow)"
    and e: "every_task (\<lambda>t. fld t ''status'' = Some (JStr ''completed'')) (children workflow)"
    by (simp_all add: childHasStatus_all)
  let ?wf1 = "put ''status'' (JStr ''open'') workflow"
  have t: "fld ?wf1 ''tasks'' = Some (JObj (children workflow))"
    using has_task_tasks [OF h] has_task_is_obj [OF h] by (simp add: fld_put)
  have "scan_entries (children workflow) [''tasks''] True
          (\<lambda>p task name inst.
             (if \<not> truthy (fld task ''status'')
              then update_at p (put ''status'' (JStr ''waiting'')) inst else inst, True)) ?wf1
        = (?wf1, True)"
    by (rule scan_entries_idle) (use e in \<open>auto elim!: every_task_mono\<close>)
  then show ?thesis
    by (simp add: setTaskStatusWaiting_def Let_def scanAllTasks_def t)
qed

lemma realExecute_all_completed:
  assumes "childHasStatus workflow ''completed'' True"
  shows "realExecute (Suc n) cfg workflow w =
           (case store_saveInstance cfg workflow w of
              (Some err, w1) \<Rightarrow> Some (Some err, workflow, w1)
            | (None, w1) \<Rightarrow>
                (case store_saveInstance cfg (put ''status'' (JStr ''completed'') workflow) w1 of
                   (saveErr, w2) \<Rightarrow>
                     Some (saveErr, put ''status'' (JStr ''completed'') workflow, w2)))"
  by (simp add: no_paused_if_all_completed [OF assms] no_open_if_all_completed [OF assms]
      openNextAvailableTask_idle [OF assms] assms split: prod.splits option.splits)


lemma validateWorkflow_all_completed:
  assumes "childHasStatus workflow ''completed'' True"
  shows "childHasStatus (validateWorkflow cfg workflow) ''completed'' True"
    and "fld (validateWorkflow cfg workflow) ''tasks'' = map_option clone (fld workflow ''tasks'')"
    and "k \<notin> {''id'', ''status''} \<Longrightarrow>
           fld (validateWorkflow cfg workflow) k = map_option clone (fld workflow k)"
proof -
  from assms have c: "childHasStatus (clone workflow) ''completed'' True"
    by (simp add: childHasStatus_clone)
  from assms have o: "is_obj (clone workflow)"
    by (simp add: childHasStatus_all has_task_is_obj)
  have v: "validateWorkflow cfg workflow =
             (let inst = put ''status'' (JStr ''open'') (clone workflow)
              in if \<not> truthy (fld inst ''id'') then put ''id'' (JStr (uuidv4 cfg)) inst else inst)"
    by (simp add: validateWorkflow_def setTaskStatusWaiting_idle [OF c])
  show k: "k \<notin> {''id'', ''status''} \<Longrightarrow>
             fld (validateWorkflow cfg workflow) k = map_option clone (fld workflow k)" for k
    using o by (simp add: v Let_def fld_put fld_clone)
  from k [of "''tasks''"]
  show t: "fld (validateWorkflow cfg workflow) ''tasks'' = map_option clone (fld workflow ''tasks'')"
    by simp
  have "fld (validateWorkflow cfg workflow) ''tasks'' = fld (clone workflow) ''tasks''"
    by (simp add: t fld_clone)
  from childHasStatus_cong [OF this] c
  show "childHasStatus (validateWorkflow cfg workflow) ''completed'' True"
    by simp
qed

text \<open>
  \<^verbatim>\<open>execute\<close> on an instance that has a task, whose every task at every depth has the
  status \<^verbatim>\<open>"completed"\<close>, and that has no hook, for any store: the instance is saved at
  save point A, with the status \<^verbatim>\<open>"open"\<close> that \<^verbatim>\<open>setTaskStatusWaiting\<close> gives it, and if
  that save succeeds it is saved again at save point C with the status \<^verbatim>\<open>"completed"\<close>.
\<close>

lemma execute_two_saves:
  assumes "has_task (children workflow)"
    and "every_task (\<lambda>t. fld t ''status'' = Some (JStr ''completed'')) (children workflow)"
    and "\<not> truthy (fld workflow ''pre workflow'')"
    and "\<not> truthy (fld workflow ''post workflow'')"
  shows "fld (validateWorkflow cfg (addEnvVars cfg workflow)) ''tasks''
           = map_option clone (fld workflow ''tasks'')
       \<and> execute (Suc n) cfg workflow w =
          (let inst = validateWorkflow cfg (addEnvVars cfg workflow);
               finished = put ''status'' (JStr ''completed'') inst
           in case store_saveInstance cfg inst w of
                (Some err, w1) \<Rightarrow> Some (Some err, inst, w1, addEnvVars cfg workflow)
              | (None, w1) \<Rightarrow>
                  (case store_saveInstance cfg finished w1 of
                     (saveErr, w2) \<Rightarrow> Some (saveErr, finished, w2, addEnvVars cfg workflow)))"
proof -
  let ?caller = "addEnvVars cfg workflow"
  let ?inst = "validateWorkflow cfg ?caller"
  from assms(1) have o: "is_obj workflow"
    by (rule has_task_is_obj)
  have other: "k \<noteq> ''environment'' \<Longrightarrow> fld ?caller k = fld workflow k" for k
    using o by (simp add: addEnvVars_def fld_put)
  have "childHasStatus workflow ''completed'' True"
    using assms(1,2) by (simp add: childHasStatus_all)
  with childHasStatus_cong [OF other [of "''tasks''"]]
  have c: "childHasStatus ?caller ''completed'' True"
    by simp
  note v = validateWorkflow_all_completed [OF c, where cfg = cfg]
  have tasks: "fld ?inst ''tasks'' = map_option clone (fld workflow ''tasks'')"
    using v(2) other [of "''tasks''"] by simp
  have pre: "\<not> truthy (fld ?inst ''pre workflow'')"
    using v(3) [of "''pre workflow''"] other [of "''pre workflow''"] assms(3) by simp
  have "fld (put ''status'' (JStr ''completed'') ?inst) ''post workflow''
          = fld ?inst ''post workflow''"
    by (cases ?inst) (simp_all add: update_conv')
  then have post: "\<not> truthy (fld (put ''status'' (JStr ''completed'') ?inst) ''post workflow'')"
    using v(3) [of "''post workflow''"] other [of "''post workflow''"] assms(4) by simp
  let ?fin = "put ''status'' (JStr ''completed'') ?inst"
  have d1: "doPre cfg ?inst w = (None, ?inst, w)"
    using pre by (simp add: doPre_def executePrePost_def)
  have d2: "doPost cfg ?fin w2 = (None, ?fin, w2)" for w2
    using post by (simp add: doPost_def executePrePost_def)
  note r = realExecute_all_completed [OF v(1), of n cfg w]
  obtain a w1 where sa: "store_saveInstance cfg ?inst w = (a, w1)"
    by (cases "store_saveInstance cfg ?inst w")
  have "execute (Suc n) cfg workflow w =
          (let inst = ?inst; finished = put ''status'' (JStr ''completed'') inst
           in case store_saveInstance cfg inst w of
                (Some err, w1) \<Rightarrow> Some (Some err, inst, w1, ?caller)
              | (None, w1) \<Rightarrow>
                  (case store_saveInstance cfg finished w1 of
                     (saveErr, w2) \<Rightarrow> Some (saveErr, finished, w2, ?caller)))"
  proof (cases a)
    case (Some err)
    with r sa have "realExecute (Suc n) cfg ?inst w = Some (Some err, ?inst, w1)"
      by simp
    with o d1 have "execute (Suc n) cfg workflow w = Some (Some err, ?inst, w1, ?caller)"
      by (simp add: execute_def Let_def)
    with sa Some show ?thesis
      by (simp add: Let_def)
  next
    case None
    obtain c w2 where sc: "store_saveInstance cfg ?fin w1 = (c, w2)"
      by (cases "store_saveInstance cfg ?fin w1")
    with r sa None have "realExecute (Suc n) cfg ?inst w = Some (c, ?fin, w2)"
      by simp
    with o d1 d2 [of w2] have "execute (Suc n) cfg workflow w = Some (c, ?fin, w2, ?caller)"
      by (cases c) (simp_all add: execute_def Let_def)
    with sa sc None show ?thesis
      by (simp add: Let_def)
  qed
  with tasks show ?thesis by simp
qed

text \<open>The effect of one \<^verbatim>\<open>saveInstance\<close> of the file backend on the files of an id.\<close>

lemma validateWorkflow_id:
  assumes "childHasStatus workflow ''completed'' True"
    and "fld workflow ''id'' = Some (JStr current)" and "current \<noteq> []"
  shows "fld (validateWorkflow cfg workflow) ''id'' = Some (JStr current)"
proof -
  from assms(1) have c: "childHasStatus (clone workflow) ''completed'' True"
    by (simp add: childHasStatus_clone)
  from assms(1) have o: "is_obj (clone workflow)"
    by (simp add: childHasStatus_all has_task_is_obj)
  have i: "fld (put ''status'' (JStr ''open'') (clone workflow)) ''id'' = Some (JStr current)"
    using o assms(2) by (simp add: fld_put fld_clone)
  show ?thesis
    using assms(3) by (simp add: validateWorkflow_def setTaskStatusWaiting_idle [OF c] i)
qed

lemma is_history_keys:
  "is_history current h \<Longrightarrow> (h \<in> fst ` set fs) = (h \<in> set (history_files fs current))"
  by (auto simp: history_files_def)

lemma stamp_not_current: "current @ ''_'' @ s \<noteq> current"
  by simp

lemma keys_delete: "fst ` set (AList.delete k fs) = fst ` set fs - {k}"
  by (induction fs) auto

lemma file_saveInstance_effect:
  assumes "fld workflow ''id'' = Some (JStr current)"
  shows "fst (file_saveInstance clk workflow w) = None"
    and "invoked (snd (file_saveInstance clk workflow w)) = invoked w"
    and "ticks (snd (file_saveInstance clk workflow w))
           = (if fs_exists (db w) current then Suc (ticks w) else ticks w)"
    and "fs_exists (db (snd (file_saveInstance clk workflow w))) current"
    and "history_files (db (snd (file_saveInstance clk workflow w))) current
           = (if fs_exists (db w) current \<and>
                 current @ ''_'' @ show_nat (clk (ticks w)) \<notin> set (history_files (db w) current)
              then history_files (db w) current @ [current @ ''_'' @ show_nat (clk (ticks w))]
              else history_files (db w) current)"
proof -
  let ?h = "current @ ''_'' @ show_nat (clk (ticks w))"
  have hh: "is_history current ?h" by simp
  have ne: "?h \<noteq> current" by simp
  show "fst (file_saveInstance clk workflow w) = None"
    using assms by (simp add: file_saveInstance_def Let_def)
  show "invoked (snd (file_saveInstance clk workflow w)) = invoked w"
    using assms by (simp add: file_saveInstance_def Let_def)
  show "ticks (snd (file_saveInstance clk workflow w))
           = (if fs_exists (db w) current then Suc (ticks w) else ticks w)"
    using assms by (simp add: file_saveInstance_def Let_def)
  show "fs_exists (db (snd (file_saveInstance clk workflow w))) current"
    using saved_current [OF assms, of clk w] by (simp add: fs_exists_def)
  show "history_files (db (snd (file_saveInstance clk workflow w))) current
           = (if fs_exists (db w) current \<and> ?h \<notin> set (history_files (db w) current)
              then history_files (db w) current @ [?h]
              else history_files (db w) current)"
  proof (cases "map_of (db w) current")
    case None
    then show ?thesis
      by (simp add: save_first [OF assms None] fs_exists_def history_files_update)
  next
    case (Some old)
    have k: "(?h \<in> fst ` set (AList.delete current (db w)))
               = (?h \<in> set (history_files (db w) current))"
      using ne by (simp only: keys_delete is_history_keys [OF hh, symmetric]) blast
    show ?thesis
      unfolding save_again [OF assms Some]
      using Some hh k
      by (simp add: fs_exists_def history_files_update del: is_history_stamp)
  qed
qed




section \<open>The run of scenario 5\<close>

text \<open>
  What the callback of \<^verbatim>\<open>execute\<close> receives for scenario 5 with \<^verbatim>\<open>HOME=/tmp\<close>: the error,
  the value of \<^verbatim>\<open>tasks.t1.parameters.log\<close>, the status of the instance; and the object that
  the caller passed in, after the run.
\<close>

lemma run_workflowE:
  "map_option (\<lambda>(err, inst, w', caller).
       (err, get_at inst [''tasks'', ''t1'', ''parameters'', ''log''], fld inst ''status'', caller))
     (execute 5 (file_engine env_home) workflowE empty_disk)
   = Some (None, Some (JStr (''val=/'' @ [CHR 0x08] @ ''tmp'' @ [CHR 0x08])),
           Some (JStr ''completed''),
           JObj [(''name'', JStr ''E''),
                 (''tasks'', JObj [(''t1'', JObj [(''handler'', JStr ''log''),
                    (''parameters'', JObj [(''log'', JStr ''val=$[environment.HOME]'')])])]),
                 (''environment'', JObj [(''HOME'', JStr ''/tmp'')])])"
  by code_simp

text \<open>
  C2. \<^verbatim>\<open>setTaskDataValues\<close> escapes a string value before it splices it into the JSON text of
  the property, and one step of the escape is \<^verbatim>\<open>.replace(/\b/g, "\\b")\<close>. Outside a character
  class \<^verbatim>\<open>\b\<close> is the word boundary, so the step writes the two characters \<^verbatim>\<open>\b\<close> at every
  boundary between a word character and another one, and \<^verbatim>\<open>JSON.parse\<close> reads each as a
  backspace (U+0008). The value \<^verbatim>\<open>/tmp\<close> is escaped to \<^verbatim>\<open>\/\btmp\b\<close>, and the run of scenario 5
  leaves \<^verbatim>\<open>val=/\<close>, a backspace, \<^verbatim>\<open>tmp\<close> and a backspace in \<^verbatim>\<open>t1.parameters.log\<close>, which is not
  \<^verbatim>\<open>val=/tmp\<close>. The reference is resolved before the handler is imported, so the text is
  the same in an environment where the import of \<^verbatim>\<open>log\<close> fails and the run ends in error.
\<close>

theorem embedded_reference_word_boundaries:
  "escaped ''/tmp'' = [bs, CHR ''/'', bs, CHR ''b''] @ ''tmp'' @ [bs, CHR ''b'']
   \<and> map_option (\<lambda>(err, inst, w', caller).
         (err, get_at inst [''tasks'', ''t1'', ''parameters'', ''log''], fld inst ''status''))
       (execute 5 (file_engine env_home) workflowE empty_disk)
     = Some (None, Some (JStr (''val=/'' @ [CHR 0x08] @ ''tmp'' @ [CHR 0x08])),
             Some (JStr ''completed''))
   \<and> ''val=/'' @ [CHR 0x08] @ ''tmp'' @ [CHR 0x08] \<noteq> ''val=/tmp''
   \<and> map_option (\<lambda>(err, inst, w', caller).
         (err \<noteq> None, get_at inst [''tasks'', ''t1'', ''parameters'', ''log''],
          fld inst ''status''))
       (execute 5 ((file_engine env_home)\<lparr>import_module := \<lambda>m. Inl (Error ''Cannot find package'')\<rparr>)
          workflowE empty_disk)
     = Some (True, Some (JStr (''val=/'' @ [CHR 0x08] @ ''tmp'' @ [CHR 0x08])),
             Some (JStr ''error''))"
proof -
  have "escaped ''/tmp'' = [bs, CHR ''/'', bs, CHR ''b''] @ ''tmp'' @ [bs, CHR ''b'']"
    by code_simp
  moreover from run_workflowE
  have "map_option (\<lambda>(err, inst, w', caller).
         (err, get_at inst [''tasks'', ''t1'', ''parameters'', ''log''], fld inst ''status''))
       (execute 5 (file_engine env_home) workflowE empty_disk)
     = Some (None, Some (JStr (''val=/'' @ [CHR 0x08] @ ''tmp'' @ [CHR 0x08])),
             Some (JStr ''completed''))"
    by (cases "execute 5 (file_engine env_home) workflowE empty_disk") auto
  moreover have "map_option (\<lambda>(err, inst, w', caller).
         (err \<noteq> None, get_at inst [''tasks'', ''t1'', ''parameters'', ''log''],
          fld inst ''status''))
       (execute 5 ((file_engine env_home)\<lparr>import_module := \<lambda>m. Inl (Error ''Cannot find package'')\<rparr>)
          workflowE empty_disk)
     = Some (True, Some (JStr (''val=/'' @ [CHR 0x08] @ ''tmp'' @ [CHR 0x08])),
             Some (JStr ''error''))"
    by code_simp
  ultimately show ?thesis by simp
qed

text \<open>
  C5. \<^verbatim>\<open>execute\<close> calls \<^verbatim>\<open>addEnvVars\<close> on the object it is given before \<^verbatim>\<open>validateWorkflow\<close>
  clones it, so whenever \<^verbatim>\<open>execute\<close> comes back the object of the caller is the one passed
  in with the property \<^verbatim>\<open>environment\<close> set to the environment of the process.
\<close>

theorem execute_changes_caller:
  "map_option (\<lambda>(err, inst, w', caller). caller) (execute fuel cfg workflow w)
     = map_option (\<lambda>r. put ''environment'' (process_env cfg) workflow) (execute fuel cfg workflow w)"
proof (cases "is_obj workflow")
  case False
  then show ?thesis by (cases workflow) (simp_all add: execute_def)
next
  case True
  then show ?thesis
    by (simp add: execute_def Let_def addEnvVars_def split: prod.splits option.splits)
qed

text \<open>Scenario 5: the caller's object had no \<^verbatim>\<open>environment\<close> and has one after the run.\<close>

theorem execute_changes_caller_witness:
  "map_option (\<lambda>(err, inst, w', caller). caller)
     (execute 5 (file_engine env_home) workflowE empty_disk)
   = Some (JObj [(''name'', JStr ''E''),
                 (''tasks'', JObj [(''t1'', JObj [(''handler'', JStr ''log''),
                    (''parameters'', JObj [(''log'', JStr ''val=$[environment.HOME]'')])])]),
                 (''environment'', JObj [(''HOME'', JStr ''/tmp'')])])
   \<and> fld workflowE ''environment'' = None"
proof -
  from run_workflowE have "execute 5 (file_engine env_home) workflowE empty_disk \<noteq> None"
    by auto
  then show ?thesis
    using execute_changes_caller [of 5 "file_engine env_home" workflowE empty_disk]
    by (auto simp: workflowE_def file_engine_def env_home_def)
qed

end
